theory Spec2Isabelle
  imports Complex_Main "HOL-Library.Word"
begin

section \<open>Tile-based Mandelbrot renderer: the model\<close>

text \<open>
  The development follows \<^verbatim>\<open>termux_friendly_mandelbrot.py\<close>: the escape-time loop of
  \<^verbatim>\<open>mandelbrot_tile\<close>, the tile loop of \<^verbatim>\<open>render_mandelbrot_tiled\<close> and its colouring
  step. Conventions:

  \<^item> Python integers (\<^verbatim>\<open>width\<close>, \<^verbatim>\<open>height\<close>, \<^verbatim>\<open>max_iter\<close>, \<^verbatim>\<open>tile_size\<close>, loop
    counters) are \<^typ>\<open>int\<close>; \<^verbatim>\<open>//\<close> is \<open>div\<close>, which rounds the same way.
  \<^item> Python and NumPy floats are idealised as \<^typ>\<open>real\<close>: rounding and overflow are not
    represented. The colouring can meet floats that are not finite (the logarithm of 0 or
    of a negative number, 0 divided by 0); there they are represented, see \<open>np_float\<close>.
  \<^item> A two-dimensional array is the list of its rows. The cells of the \<^verbatim>\<open>int32\<close> arrays
    are 32-bit words read with \<^const>\<open>sint\<close>; the cells of the \<^verbatim>\<open>uint8\<close> image are 8-bit
    words.
  \<^item> Every exception the code can raise is a value of \<open>py_error\<close>, returned as \<open>Inl\<close>.
  \<^item> Printing, the progress bar, timing and the PIL image wrapper are left out.
\<close>

type_synonym int32 = "32 word"
type_synonym uint8 = "8 word"

datatype py_error =
    ZeroDivisionError
  | ValueError
  | OverflowError
  | IndexError

subsection \<open>Arrays\<close>

text \<open>
  \<^verbatim>\<open>a.shape\<close> of a two-dimensional array: (rows, columns). An array without rows is
  \<open>[]\<close>, whatever its number of columns.
\<close>

definition shape :: "'a list list \<Rightarrow> nat \<times> nat" where
  "shape a = (length a, case a of [] \<Rightarrow> 0 | r # _ \<Rightarrow> length r)"

text \<open>\<^verbatim>\<open>a[i, j]\<close> for non-negative indices; out of range raises \<^verbatim>\<open>IndexError\<close>.\<close>

definition at2 :: "'a list list \<Rightarrow> nat \<Rightarrow> nat \<Rightarrow> py_error + 'a" where
  "at2 a i j = (if i < length a \<and> j < length (a ! i) then Inr (a ! i ! j) else Inl IndexError)"

text \<open>
  Running a list of computations in order: the first exception ends the run, otherwise
  the values are collected.
\<close>

fun collect :: "('e + 'a) list \<Rightarrow> 'e + 'a list" where
  "collect [] = Inr []"
| "collect (x # xs) =
     (case x of
        Inl e \<Rightarrow> Inl e
      | Inr v \<Rightarrow> (case collect xs of Inl e \<Rightarrow> Inl e | Inr vs \<Rightarrow> Inr (v # vs)))"

text \<open>
  Storing a Python integer into an \<^verbatim>\<open>int32\<close> cell (\<^verbatim>\<open>divtime[i, j] = k\<close>): NumPy raises
  \<^verbatim>\<open>OverflowError\<close> for a value outside the 32-bit range (NumPy 2; earlier releases
  warned and stored the value modulo \<open>2\<^sup>3\<^sup>2\<close>). The loop can reach such a value only after
  more than \<open>2\<^sup>3\<^sup>1\<close> iterations for one point.
\<close>

definition store_int32 :: "int \<Rightarrow> py_error + int32" where
  "store_int32 v =
     (if - (2 ^ 31) \<le> v \<and> v < 2 ^ 31 then Inr (word_of_int v) else Inl OverflowError)"

subsection \<open>The escape-time evaluator (\<^verbatim>\<open>mandelbrot_tile\<close>)\<close>

text \<open>
  The inner loop \<^verbatim>\<open>for k in range(max_iter): ... else: ...\<close> for one point. The arguments
  \<open>k\<close>, \<open>zr\<close>, \<open>zi\<close> are the loop state on entry to an iteration; the value is what the
  loop writes to \<^verbatim>\<open>divtime[i, j]\<close>: \<open>k\<close> at the \<^verbatim>\<open>break\<close>, \<open>max_iter - 1\<close> in the
  \<^verbatim>\<open>else\<close> branch. As in the source, \<open>zi\<close> is updated from the old \<open>zr\<close>, and \<open>zr\<close> from
  the squares taken before the update.
\<close>

function escape_loop :: "real \<Rightarrow> real \<Rightarrow> int \<Rightarrow> int \<Rightarrow> real \<Rightarrow> real \<Rightarrow> int" where
  "escape_loop cr ci max_iter k zr zi =
     (if k < max_iter then
        (let zr2 = zr * zr; zi2 = zi * zi in
         if zr2 + zi2 > 4 then k
         else escape_loop cr ci max_iter (k + 1) (zr2 - zi2 + cr) (2 * zr * zi + ci))
      else max_iter - 1)"
  by pat_completeness auto
termination
  by (relation "measure (\<lambda>(cr, ci, max_iter, k, zr, zi). nat (max_iter - k))") auto

declare escape_loop.simps [simp del]

text \<open>\<^verbatim>\<open>zr = zi = 0.0\<close>, then the loop from \<open>k = 0\<close>.\<close>

definition escape_count :: "real \<Rightarrow> real \<Rightarrow> int \<Rightarrow> int" where
  "escape_count cr ci max_iter = escape_loop cr ci max_iter 0 0 0"

text \<open>The body of the two outer loops for the cell \<open>(i, j)\<close>.\<close>

definition divtime_cell ::
  "real list list \<Rightarrow> real list list \<Rightarrow> int \<Rightarrow> nat \<Rightarrow> nat \<Rightarrow> py_error + int32" where
  "divtime_cell c_real c_imag max_iter i j =
     (case at2 c_real i j of
        Inl e \<Rightarrow> Inl e
      | Inr cr \<Rightarrow>
          (case at2 c_imag i j of
             Inl e \<Rightarrow> Inl e
           | Inr ci \<Rightarrow> store_int32 (escape_count cr ci max_iter)))"

text \<open>
  \<^verbatim>\<open>mandelbrot_tile\<close>: every cell of \<^verbatim>\<open>divtime\<close> is written exactly once, in row-major
  order, so the array that is returned is the array of the values written.
\<close>

definition mandelbrot_tile ::
  "real list list \<Rightarrow> real list list \<Rightarrow> int \<Rightarrow> py_error + int32 list list" where
  "mandelbrot_tile c_real c_imag max_iter =
     (let (height, width) = shape c_real in
      collect (map (\<lambda>i. collect (map (\<lambda>j. divtime_cell c_real c_imag max_iter i j) [0..<width]))
                   [0..<height]))"

subsection \<open>The recurrence as the specification words it\<close>

text \<open>
  The orbit of 0 under \<open>z \<mapsto> z\<^sup>2 + c\<close>, in real and imaginary parts, the escape condition
  \<open>zr\<^sup>2 + zi\<^sup>2 > 4\<close>, and the count: the first \<open>k\<close> below \<open>max_iter\<close> whose orbit point
  satisfies the escape condition, and \<open>max_iter - 1\<close> when there is none.
\<close>

fun orbit :: "real \<Rightarrow> real \<Rightarrow> nat \<Rightarrow> real \<times> real" where
  "orbit cr ci 0 = (0, 0)"
| "orbit cr ci (Suc k) =
     (let (zr, zi) = orbit cr ci k in (zr * zr - zi * zi + cr, 2 * zr * zi + ci))"

definition escaped :: "real \<times> real \<Rightarrow> bool" where
  "escaped z = (fst z * fst z + snd z * snd z > 4)"

definition spec_count :: "real \<Rightarrow> real \<Rightarrow> int \<Rightarrow> int" where
  "spec_count cr ci max_iter =
     (case find (\<lambda>k. escaped (orbit cr ci k)) [0..<nat max_iter] of
        Some k \<Rightarrow> int k
      | None \<Rightarrow> max_iter - 1)"

subsection \<open>The tile loop (\<^verbatim>\<open>render_mandelbrot_tiled\<close>, up to the colouring)\<close>

text \<open>\<^verbatim>\<open>range(n)\<close> and \<^verbatim>\<open>np.arange(a, b)\<close>: empty when the upper end is not above the lower.\<close>

definition py_range :: "int \<Rightarrow> int list" where
  "py_range n = [0..n - 1]"

definition np_arange :: "int \<Rightarrow> int \<Rightarrow> int list" where
  "np_arange a b = [a..b - 1]"

text \<open>
  \<^verbatim>\<open>np.meshgrid(xs, ys)\<close> with the default indexing: both results have \<open>len(ys)\<close> rows and
  \<open>len(xs)\<close> columns, the first repeats \<open>xs\<close> in every row, the second repeats \<open>ys\<close> down
  every column.
\<close>

definition np_meshgrid :: "'a list \<Rightarrow> 'a list \<Rightarrow> 'a list list \<times> 'a list list" where
  "np_meshgrid xs ys = (map (\<lambda>y. xs) ys, map (\<lambda>y. map (\<lambda>x. y) xs) ys)"

text \<open>
  A bound of a Python slice over a sequence of length \<open>n\<close>: a negative bound counts from
  the end, and the result is clipped to \<open>0 .. n\<close>.
\<close>

definition slice_bound :: "nat \<Rightarrow> int \<Rightarrow> nat" where
  "slice_bound n i = (if i < 0 then nat (i + int n) else min (nat i) n)"

text \<open>
  \<^verbatim>\<open>result[y_start:y_end, x_start:x_end] = tile_result\<close>, returning the updated array. A
  tile whose shape is not the block's shape raises \<^verbatim>\<open>ValueError\<close> (NumPy would first try
  to broadcast a dimension of size one; the tiles of this program always have the shape of
  their block, see \<open>process_tile_valid\<close>, so broadcasting is not modelled).
\<close>

definition assign_block ::
  "'a list list \<Rightarrow> int \<Rightarrow> int \<Rightarrow> int \<Rightarrow> int \<Rightarrow> 'a list list \<Rightarrow> py_error + 'a list list" where
  "assign_block result y_start y_end x_start x_end tile_result =
     (let (h, w) = shape result;
          y0 = slice_bound h y_start; y1 = max y0 (slice_bound h y_end);
          x0 = slice_bound w x_start; x1 = max x0 (slice_bound w x_end)
      in if length tile_result = y1 - y0 \<and> (\<forall>r \<in> set tile_result. length r = x1 - x0)
         then Inr (map (\<lambda>y. if y0 \<le> y \<and> y < y1
                              then take x0 (result ! y) @ tile_result ! (y - y0) @ drop x1 (result ! y)
                              else result ! y) [0..<h])
         else Inl ValueError)"

text \<open>
  The pixel rectangle of tile \<open>(tx, ty)\<close>: \<open>(x_start, x_end, y_start, y_end)\<close>, lines 76
  to 79 of the source.
\<close>

definition tile_bounds :: "int \<Rightarrow> int \<Rightarrow> int \<Rightarrow> int \<Rightarrow> int \<Rightarrow> int \<times> int \<times> int \<times> int" where
  "tile_bounds width height tile_size tx ty =
     (let x_start = tx * tile_size;
          y_start = ty * tile_size;
          x_end = min (x_start + tile_size) width;
          y_end = min (y_start + tile_size) height
      in (x_start, x_end, y_start, y_end))"

text \<open>
  The coordinate grids of a tile, lines 84 to 90: the global pixel indices of the tile,
  scaled and shifted, then spread to two grids.
\<close>

definition tile_coords ::
  "real \<Rightarrow> real \<Rightarrow> real \<Rightarrow> real \<Rightarrow> int \<times> int \<times> int \<times> int \<Rightarrow> real list list \<times> real list list" where
  "tile_coords x_min y_min x_scale y_scale bounds =
     (let (x_start, x_end, y_start, y_end) = bounds;
          x_indices = np_arange x_start x_end;
          y_indices = np_arange y_start y_end
      in np_meshgrid (map (\<lambda>x. x_min + real_of_int x * x_scale) x_indices)
                     (map (\<lambda>y. y_min + real_of_int y * y_scale) y_indices))"

text \<open>The body of the tile loop for tile \<open>(tx, ty)\<close>, returning the updated \<^verbatim>\<open>result\<close>.\<close>

definition process_tile ::
  "int \<Rightarrow> int \<Rightarrow> int \<Rightarrow> real \<Rightarrow> real \<Rightarrow> real \<Rightarrow> real \<Rightarrow> int \<Rightarrow> int32 list list \<Rightarrow> int \<times> int
     \<Rightarrow> py_error + int32 list list" where
  "process_tile width height max_iter x_min y_min x_scale y_scale tile_size result t =
     (let (ty, tx) = t;
          (x_start, x_end, y_start, y_end) = tile_bounds width height tile_size tx ty;
          (X_tile, Y_tile) = tile_coords x_min y_min x_scale y_scale (x_start, x_end, y_start, y_end)
      in case mandelbrot_tile X_tile Y_tile max_iter of
           Inl e \<Rightarrow> Inl e
         | Inr tile_result \<Rightarrow> assign_block result y_start y_end x_start x_end tile_result)"

text \<open>The two nested \<^verbatim>\<open>for\<close> loops, over the tiles in the order they are visited.\<close>

fun process_tiles ::
  "int \<Rightarrow> int \<Rightarrow> int \<Rightarrow> real \<Rightarrow> real \<Rightarrow> real \<Rightarrow> real \<Rightarrow> int \<Rightarrow> (int \<times> int) list
     \<Rightarrow> int32 list list \<Rightarrow> py_error + int32 list list" where
  "process_tiles width height max_iter x_min y_min x_scale y_scale tile_size [] result = Inr result"
| "process_tiles width height max_iter x_min y_min x_scale y_scale tile_size (t # ts) result =
     (case process_tile width height max_iter x_min y_min x_scale y_scale tile_size result t of
        Inl e \<Rightarrow> Inl e
      | Inr result' \<Rightarrow>
          process_tiles width height max_iter x_min y_min x_scale y_scale tile_size ts result')"

text \<open>
  The tile grid of lines 61 and 62 and the pairs \<open>(ty, tx)\<close> in the order the two loops
  visit them.
\<close>

definition tile_grid :: "int \<Rightarrow> int \<Rightarrow> int \<Rightarrow> (int \<times> int) list" where
  "tile_grid width height tile_size =
     (let tiles_x = (width + tile_size - 1) div tile_size;
          tiles_y = (height + tile_size - 1) div tile_size
      in List.product (py_range tiles_y) (py_range tiles_x))"

text \<open>
  Lines 53 to 99: the scales, the zero-filled \<^verbatim>\<open>result\<close>, the tile grid and the tile loop.
  The value is the Divergence Buffer. Python raises \<^verbatim>\<open>ZeroDivisionError\<close> for a division by
  the integer 0 (lines 54, 55, 61) and NumPy raises \<^verbatim>\<open>ValueError\<close> for a negative dimension
  (line 58); nothing else is checked.
\<close>

definition divergence_buffer ::
  "int \<Rightarrow> int \<Rightarrow> int \<Rightarrow> real \<Rightarrow> real \<Rightarrow> real \<Rightarrow> real \<Rightarrow> int \<Rightarrow> py_error + int32 list list" where
  "divergence_buffer width height max_iter x_min x_max y_min y_max tile_size =
     (if width = 0 then Inl ZeroDivisionError
      else let x_scale = (x_max - x_min) / real_of_int width in
      if height = 0 then Inl ZeroDivisionError
      else let y_scale = (y_max - y_min) / real_of_int height in
      if height < 0 \<or> width < 0 then Inl ValueError
      else let result = replicate (nat height) (replicate (nat width) (0 :: int32)) in
      if tile_size = 0 then Inl ZeroDivisionError
      else process_tiles width height max_iter x_min y_min x_scale y_scale tile_size
             (tile_grid width height tile_size) result)"

subsection \<open>The colouring (lines 105 to 107)\<close>

text \<open>
  The floats of the colouring: a finite value, an infinity, or NaN. NumPy does not raise
  on any of them; it warns and carries on.
\<close>

datatype np_float = Finite real | PosInf | NegInf | NaN

text \<open>
  \<^verbatim>\<open>np.log\<close> of an integer cell: minus infinity at 0, NaN below. \<^verbatim>\<open>result + 1\<close> is 32-bit
  addition and wraps.
\<close>

definition np_log :: "int \<Rightarrow> np_float" where
  "np_log v = (if 0 < v then Finite (ln (real_of_int v)) else if v = 0 then NegInf else NaN)"

definition log_buffer :: "int32 list list \<Rightarrow> np_float list list" where
  "log_buffer result = map (map (\<lambda>c. np_log (sint (c + 1)))) result"

text \<open>
  \<^verbatim>\<open>np.max\<close>: the largest cell, NaN as soon as one cell is NaN; \<^verbatim>\<open>ValueError\<close> for an
  array without cells.
\<close>

fun fmax :: "np_float \<Rightarrow> np_float \<Rightarrow> np_float" where
  "fmax NaN y = NaN"
| "fmax x NaN = NaN"
| "fmax PosInf y = PosInf"
| "fmax x PosInf = PosInf"
| "fmax NegInf y = y"
| "fmax x NegInf = x"
| "fmax (Finite a) (Finite b) = Finite (max a b)"

definition np_max :: "np_float list list \<Rightarrow> py_error + np_float" where
  "np_max a = (case concat a of [] \<Rightarrow> Inl ValueError | x # xs \<Rightarrow> Inr (fold fmax xs x))"

text \<open>
  Float division: a finite quotient where the divisor is finite and not 0; 0 divided by 0
  and an infinity divided by an infinity are NaN; another finite value divided by 0 is an
  infinity. (The zero divisor that arises here is the logarithm of 1, which is \<open>+0.0\<close>.)
\<close>

fun np_divide :: "np_float \<Rightarrow> np_float \<Rightarrow> np_float" where
  "np_divide NaN y = NaN"
| "np_divide x NaN = NaN"
| "np_divide (Finite a) (Finite b) =
     (if b \<noteq> 0 then Finite (a / b)
      else if a = 0 then NaN else if 0 < a then PosInf else NegInf)"
| "np_divide (Finite a) y = Finite 0"
| "np_divide PosInf (Finite b) = (if 0 \<le> b then PosInf else NegInf)"
| "np_divide NegInf (Finite b) = (if 0 \<le> b then NegInf else PosInf)"
| "np_divide x y = NaN"

text \<open>The product with the constant 255.\<close>

fun np_times_255 :: "np_float \<Rightarrow> np_float" where
  "np_times_255 (Finite a) = Finite (a * 255)"
| "np_times_255 x = x"

text \<open>
  \<^verbatim>\<open>np.uint8\<close> of a float truncates towards zero. (For a finite value outside \<open>0 .. 255\<close>
  the conversion is not defined by NumPy; the finite values converted here lie inside, see
  \<open>post_process_range\<close>.) The conversion of NaN or of an infinity is not defined by NumPy
  either, it warns and stores what the processor's conversion gives: on x86-64 and on
  AArch64 that is 0 for NaN and for minus infinity, which is what the model takes. Plus
  infinity, where the two differ, does not arise in the colouring.
\<close>

fun np_uint8 :: "np_float \<Rightarrow> uint8" where
  "np_uint8 (Finite v) = word_of_int (if 0 \<le> v then \<lfloor>v\<rfloor> else \<lceil>v\<rceil>)"
| "np_uint8 x = 0"

text \<open>
  The three assignments to \<^verbatim>\<open>mandelbrot_set\<close>: the logarithms, the division by their
  maximum and the scaling, the conversion. The program has no branch for a maximum of 0.
\<close>

definition post_process :: "int32 list list \<Rightarrow> py_error + uint8 list list" where
  "post_process result =
     (let mandelbrot_set = log_buffer result in
      case np_max mandelbrot_set of
        Inl e \<Rightarrow> Inl e
      | Inr m \<Rightarrow>
          (let scaled = map (map (\<lambda>v. np_times_255 (np_divide v m))) mandelbrot_set
           in Inr (map (map np_uint8) scaled)))"

text \<open>The whole function: the buffer, then the image.\<close>

definition render_mandelbrot_tiled ::
  "int \<Rightarrow> int \<Rightarrow> int \<Rightarrow> real \<Rightarrow> real \<Rightarrow> real \<Rightarrow> real \<Rightarrow> int \<Rightarrow> py_error + uint8 list list" where
  "render_mandelbrot_tiled width height max_iter x_min x_max y_min y_max tile_size =
     (case divergence_buffer width height max_iter x_min x_max y_min y_max tile_size of
        Inl e \<Rightarrow> Inl e
      | Inr result \<Rightarrow> post_process result)"

subsection \<open>Notions used in the statements\<close>

text \<open>An array of \<open>h\<close> rows that all have \<open>w\<close> cells.\<close>

definition rect :: "nat \<Rightarrow> nat \<Rightarrow> 'a list list \<Rightarrow> bool" where
  "rect h w a \<longleftrightarrow> length a = h \<and> (\<forall>r \<in> set a. length r = w)"

text \<open>Pixel \<open>(x, y)\<close> lies in the rectangle of tile \<open>t = (ty, tx)\<close>.\<close>

definition in_tile :: "int \<Rightarrow> int \<Rightarrow> int \<Rightarrow> int \<times> int \<Rightarrow> int \<Rightarrow> int \<Rightarrow> bool" where
  "in_tile width height tile_size t x y =
     (case t of (ty, tx) \<Rightarrow>
        (case tile_bounds width height tile_size tx ty of
           (x_start, x_end, y_start, y_end) \<Rightarrow>
             x_start \<le> x \<and> x < x_end \<and> y_start \<le> y \<and> y < y_end))"

text \<open>The count the escape loop finds for the pixel with global indices \<open>(x, y)\<close>.\<close>

definition pixel_count :: "int \<Rightarrow> real \<Rightarrow> real \<Rightarrow> real \<Rightarrow> real \<Rightarrow> int \<Rightarrow> int \<Rightarrow> int" where
  "pixel_count max_iter x_min y_min x_scale y_scale x y =
     escape_count (x_min + real_of_int x * x_scale) (y_min + real_of_int y * y_scale) max_iter"

definition fits_int32 :: "int \<Rightarrow> bool" where
  "fits_int32 v \<longleftrightarrow> - (2 ^ 31) \<le> v \<and> v < 2 ^ 31"

text \<open>
  The viewport rectangle lies in the closed disc \<open>|c| \<le> 1/4\<close>, which the main cardioid
  contains: its four corners do (\<open>viewport_in_disc_iff\<close> below says that this is the
  same as every point of the rectangle lying in the disc).
\<close>

definition viewport_in_disc :: "real \<Rightarrow> real \<Rightarrow> real \<Rightarrow> real \<Rightarrow> bool" where
  "viewport_in_disc x_min x_max y_min y_max \<longleftrightarrow>
     max (x_min * x_min) (x_max * x_max) + max (y_min * y_min) (y_max * y_max) \<le> 1 / 16"

section \<open>Basic facts\<close>

subsection \<open>Collecting results, storing counts\<close>

lemma collect_map_Inr: "collect (map Inr ys) = Inr ys"
  by (induction ys) auto

lemma collect_Inr_D: "collect xs = Inr ys \<Longrightarrow> xs = map Inr ys"
  by (induction xs arbitrary: ys) (auto split: sum.splits)

lemma collect_Inr_iff: "collect xs = Inr ys \<longleftrightarrow> xs = map Inr ys"
  using collect_map_Inr collect_Inr_D by metis

lemma collect_Inl_D: "collect xs = Inl e \<Longrightarrow> Inl e \<in> set xs"
  by (induction xs) (auto split: sum.splits)

lemma collect_map_Inr_iff:
  "collect (map f xs) = Inr ys \<longleftrightarrow>
     length ys = length xs \<and> (\<forall>i < length xs. f (xs ! i) = Inr (ys ! i))"
  by (auto simp: collect_Inr_iff list_eq_iff_nth_eq)

lemma store_int32_Inr:
  "store_int32 v = Inr c \<longleftrightarrow> - (2 ^ 31) \<le> v \<and> v < 2 ^ 31 \<and> c = word_of_int v"
  by (auto simp: store_int32_def)

lemma sint_word_of_int_int32:
  "- (2 ^ 31) \<le> v \<Longrightarrow> v < 2 ^ 31 \<Longrightarrow> sint (word_of_int v :: int32) = v"
  by (simp add: sint_sbintrunc' signed_take_bit_int_eq_self)

lemma store_int32_sint: "store_int32 v = Inr c \<Longrightarrow> sint c = v"
  by (auto simp: store_int32_Inr sint_word_of_int_int32)

lemma store_int32_Inl: "store_int32 v = Inl e \<Longrightarrow> e = OverflowError"
  by (auto simp: store_int32_def split: if_splits)

subsection \<open>The escape loop\<close>

text \<open>
  The loop entered at step \<open>k\<close> with the orbit point of step \<open>k\<close> returns the first
  escaping step from \<open>k\<close> on, by induction along the loop.
\<close>

lemma escape_loop_find:
  "0 \<le> k \<Longrightarrow> orbit cr ci (nat k) = (zr, zi) \<Longrightarrow>
   escape_loop cr ci max_iter k zr zi =
     (case find (\<lambda>k. escaped (orbit cr ci k)) [nat k..<nat max_iter] of
        Some k' \<Rightarrow> int k'
      | None \<Rightarrow> max_iter - 1)"
proof (induction cr ci max_iter k zr zi rule: escape_loop.induct)
  case (1 cr ci max_iter k zr zi)
  show ?case
  proof (cases "k < max_iter")
    case False
    then show ?thesis by (simp add: escape_loop.simps [of cr ci max_iter k])
  next
    case True
    with 1(2) have lt: "nat k < nat max_iter" by simp
    have upt: "[nat k..<nat max_iter] = nat k # [nat (k + 1)..<nat max_iter]"
      using lt 1(2) by (simp add: upt_conv_Cons nat_add_distrib)
    show ?thesis
    proof (cases "zr * zr + zi * zi > 4")
      case esc: True
      then show ?thesis
        using True 1(2,3) by (simp add: escape_loop.simps [of cr ci max_iter k] upt escaped_def)
    next
      case noesc: False
      have nxt: "orbit cr ci (nat (k + 1)) = (zr * zr - zi * zi + cr, 2 * zr * zi + ci)"
        using 1(2,3) by (simp add: nat_add_distrib)
      have "escape_loop cr ci max_iter (k + 1) (zr * zr - zi * zi + cr) (2 * zr * zi + ci) =
         (case find (\<lambda>k. escaped (orbit cr ci k)) [nat (k + 1)..<nat max_iter] of
            Some k' \<Rightarrow> int k' | None \<Rightarrow> max_iter - 1)"
        using 1(1) [OF True refl refl _ _ nxt] noesc 1(2) by simp
      then show ?thesis
        using True noesc 1(3)
        by (simp add: escape_loop.simps [of cr ci max_iter k] upt escaped_def)
    qed
  qed
qed

lemma escape_count_spec: "escape_count cr ci max_iter = spec_count cr ci max_iter"
  using escape_loop_find [of 0 cr ci 0 0 max_iter] by (simp add: escape_count_def spec_count_def)

lemma escape_loop_bounds:
  "k < max_iter \<Longrightarrow>
   k \<le> escape_loop cr ci max_iter k zr zi \<and> escape_loop cr ci max_iter k zr zi \<le> max_iter - 1"
proof (induction cr ci max_iter k zr zi rule: escape_loop.induct)
  case (1 cr ci max_iter k zr zi)
  show ?case
  proof (cases "zr * zr + zi * zi > 4")
    case True
    with 1(2) show ?thesis by (simp add: escape_loop.simps [of cr ci max_iter k])
  next
    case False
    show ?thesis
    proof (cases "k + 1 < max_iter")
      case True
      from 1(1) [OF 1(2) refl refl False True] False 1(2)
      show ?thesis by (simp add: escape_loop.simps [of cr ci max_iter k])
    next
      case last: False
      with False 1(2) show ?thesis
        by (simp add: escape_loop.simps [of cr ci max_iter k]
            escape_loop.simps [of cr ci max_iter "k + 1"])
    qed
  qed
qed

lemma escape_loop_done: "max_iter \<le> k \<Longrightarrow> escape_loop cr ci max_iter k zr zi = max_iter - 1"
  by (simp add: escape_loop.simps [of cr ci max_iter k])

lemma escape_count_nonpos: "max_iter \<le> 0 \<Longrightarrow> escape_count cr ci max_iter = max_iter - 1"
  by (simp add: escape_count_def escape_loop_done)

lemma escape_count_bounds:
  "0 < max_iter \<Longrightarrow>
   0 \<le> escape_count cr ci max_iter \<and> escape_count cr ci max_iter \<le> max_iter - 1"
  using escape_loop_bounds [of 0 max_iter cr ci 0 0] by (simp add: escape_count_def)

text \<open>The first pass through the loop body tests \<open>z = 0\<close>, which never escapes.\<close>

lemma escape_count_first_step:
  "0 < max_iter \<Longrightarrow> escape_count cr ci max_iter = escape_loop cr ci max_iter 1 cr ci"
  by (simp add: escape_count_def escape_loop.simps [of cr ci max_iter 0])

lemma escape_count_one: "escape_count cr ci 1 = 0"
  by (simp add: escape_count_first_step escape_loop_done)

lemma escape_count_ge_one: "2 \<le> max_iter \<Longrightarrow> 1 \<le> escape_count cr ci max_iter"
  using escape_loop_bounds [of 1 max_iter cr ci cr ci] by (simp add: escape_count_first_step)

lemma escape_count_outside:
  "cr * cr + ci * ci > 4 \<Longrightarrow> 2 \<le> max_iter \<Longrightarrow> escape_count cr ci max_iter = 1"
  by (simp add: escape_count_first_step escape_loop.simps [of cr ci max_iter 1])

lemma escape_count_zero_iff: "escape_count cr ci max_iter = 0 \<longleftrightarrow> max_iter = 1"
proof (cases "max_iter \<le> 0")
  case True
  then show ?thesis by (simp add: escape_count_nonpos)
next
  case False
  show ?thesis
  proof (cases "max_iter = 1")
    case True
    then show ?thesis by (simp add: escape_count_one)
  next
    case ne: False
    with False have "2 \<le> max_iter" by simp
    from escape_count_ge_one [OF this, of cr ci] ne show ?thesis by simp
  qed
qed

subsection \<open>The evaluator on a grid\<close>

lemma divtime_cell_Inr:
  "divtime_cell c_real c_imag max_iter i j = Inr c \<longleftrightarrow>
     i < length c_real \<and> j < length (c_real ! i) \<and> i < length c_imag \<and> j < length (c_imag ! i) \<and>
     store_int32 (escape_count (c_real ! i ! j) (c_imag ! i ! j) max_iter) = Inr c"
  by (auto simp: divtime_cell_def at2_def split: sum.splits)

lemma mandelbrot_tile_Inr:
  "mandelbrot_tile c_real c_imag max_iter = Inr divtime \<longleftrightarrow>
     length divtime = length c_real \<and>
     (\<forall>i < length c_real. length (divtime ! i) = snd (shape c_real) \<and>
        (\<forall>j < snd (shape c_real). divtime_cell c_real c_imag max_iter i j = Inr (divtime ! i ! j)))"
  by (simp add: mandelbrot_tile_def shape_def collect_map_Inr_iff split: prod.splits)

lemma mandelbrot_tile_cell:
  assumes "mandelbrot_tile c_real c_imag max_iter = Inr divtime"
    "i < length divtime" "j < length (divtime ! i)"
  shows "i < length c_real \<and> j < length (c_real ! i) \<and>
         i < length c_imag \<and> j < length (c_imag ! i) \<and>
         fits_int32 (escape_count (c_real ! i ! j) (c_imag ! i ! j) max_iter) \<and>
         sint (divtime ! i ! j) = escape_count (c_real ! i ! j) (c_imag ! i ! j) max_iter"
proof -
  from assms(1) have len: "length divtime = length c_real"
    and rows: "\<forall>i < length c_real. length (divtime ! i) = snd (shape c_real) \<and>
        (\<forall>j < snd (shape c_real). divtime_cell c_real c_imag max_iter i j = Inr (divtime ! i ! j))"
    by (simp_all add: mandelbrot_tile_Inr)
  from assms(2) len have i: "i < length c_real" by simp
  with rows assms(3) have "divtime_cell c_real c_imag max_iter i j = Inr (divtime ! i ! j)" by simp
  then show ?thesis
    using store_int32_sint
      [of "escape_count (c_real ! i ! j) (c_imag ! i ! j) max_iter" "divtime ! i ! j"]
    by (simp add: divtime_cell_Inr store_int32_Inr fits_int32_def)
qed

lemma rect_shape: "rect h w a \<Longrightarrow> 0 < h \<Longrightarrow> shape a = (h, w)"
  by (cases a) (auto simp: rect_def shape_def)

lemma rect_nth: "rect h w a \<Longrightarrow> i < h \<Longrightarrow> length (a ! i) = w"
  by (auto simp: rect_def)

text \<open>
  On grids of equal shape the evaluator returns the grid of the counts, or raises
  \<^verbatim>\<open>OverflowError\<close> when one of them does not fit a cell. It returns whenever
  \<open>max_iter - 1\<close> fits a cell.
\<close>

lemma divtime_cell_rect:
  assumes "rect h w c_real" "rect h w c_imag" "i < h" "j < w"
  shows "divtime_cell c_real c_imag max_iter i j =
         store_int32 (escape_count (c_real ! i ! j) (c_imag ! i ! j) max_iter)"
  using assms by (simp add: divtime_cell_def at2_def rect_def)

lemma mandelbrot_tile_collect:
  assumes "rect h w c_real"
  shows "mandelbrot_tile c_real c_imag max_iter =
     collect (map (\<lambda>i. collect (map (\<lambda>j. divtime_cell c_real c_imag max_iter i j) [0..<w])) [0..<h])"
proof (cases "h = 0")
  case True
  with assms have "c_real = []" by (simp add: rect_def)
  then show ?thesis using True by (simp add: mandelbrot_tile_def shape_def)
next
  case False
  then have "shape c_real = (h, w)" using assms by (simp add: rect_shape)
  then show ?thesis by (simp add: mandelbrot_tile_def)
qed

lemma mandelbrot_tile_rect:
  assumes "rect h w c_real" "rect h w c_imag"
  shows "mandelbrot_tile c_real c_imag max_iter =
     (if \<forall>i < h. \<forall>j < w. fits_int32 (escape_count (c_real ! i ! j) (c_imag ! i ! j) max_iter)
      then Inr (map (\<lambda>i. map (\<lambda>j. word_of_int (escape_count (c_real ! i ! j) (c_imag ! i ! j) max_iter))
                     [0..<w]) [0..<h])
      else Inl OverflowError)"
proof (cases "\<forall>i < h. \<forall>j < w. fits_int32 (escape_count (c_real ! i ! j) (c_imag ! i ! j) max_iter)")
  case True
  have cell: "divtime_cell c_real c_imag max_iter i j =
      Inr (word_of_int (escape_count (c_real ! i ! j) (c_imag ! i ! j) max_iter))"
    if "i < h" "j < w" for i j
    using True that divtime_cell_rect [OF assms that]
    by (simp add: store_int32_def fits_int32_def)
  have "collect (map (\<lambda>i. collect (map (\<lambda>j. divtime_cell c_real c_imag max_iter i j) [0..<w])) [0..<h]) =
      Inr (map (\<lambda>i. map (\<lambda>j. word_of_int (escape_count (c_real ! i ! j) (c_imag ! i ! j) max_iter))
                     [0..<w]) [0..<h])"
    by (simp add: collect_map_Inr_iff cell)
  then show ?thesis using True by (simp add: mandelbrot_tile_collect [OF assms(1)])
next
  case False
  then obtain i j where ij: "i < h" "j < w"
    "\<not> fits_int32 (escape_count (c_real ! i ! j) (c_imag ! i ! j) max_iter)" by blast
  have "mandelbrot_tile c_real c_imag max_iter = Inl OverflowError"
  proof (cases "mandelbrot_tile c_real c_imag max_iter")
    case (Inr divtime)
    then have "collect (map (\<lambda>i. collect (map (\<lambda>j. divtime_cell c_real c_imag max_iter i j) [0..<w]))
        [0..<h]) = Inr divtime"
      by (simp add: mandelbrot_tile_collect [OF assms(1)])
    then have "divtime_cell c_real c_imag max_iter i j = Inr (divtime ! i ! j)"
      using ij(1,2) by (simp add: collect_map_Inr_iff)
    then have "fits_int32 (escape_count (c_real ! i ! j) (c_imag ! i ! j) max_iter)"
      by (simp add: divtime_cell_rect [OF assms ij(1,2)] store_int32_Inr fits_int32_def)
    with ij(3) show ?thesis by simp
  next
    case (Inl e)
    then have "collect (map (\<lambda>i. collect (map (\<lambda>j. divtime_cell c_real c_imag max_iter i j) [0..<w]))
        [0..<h]) = Inl e"
      by (simp add: mandelbrot_tile_collect [OF assms(1)])
    from collect_Inl_D [OF this] obtain i' where i': "i' < h"
      "collect (map (\<lambda>j. divtime_cell c_real c_imag max_iter i' j) [0..<w]) = Inl e"
      by auto
    from collect_Inl_D [OF i'(2)] obtain j' where j': "j' < w"
      "divtime_cell c_real c_imag max_iter i' j' = Inl e"
      by auto
    from j'(2) have "e = OverflowError"
      by (simp add: divtime_cell_rect [OF assms i'(1) j'(1)] store_int32_Inl)
    with Inl show ?thesis by simp
  qed
  then show ?thesis using False by simp
qed

lemma escape_count_fits:
  assumes "- (2 ^ 31) < max_iter" "max_iter \<le> 2 ^ 31"
  shows "fits_int32 (escape_count cr ci max_iter)"
proof (cases "0 < max_iter")
  case True
  from escape_count_bounds [OF this, of cr ci] assms show ?thesis by (simp add: fits_int32_def)
next
  case False
  then show ?thesis using assms by (simp add: escape_count_nonpos fits_int32_def)
qed

lemma mandelbrot_tile_returns:
  assumes "rect h w c_real" "rect h w c_imag" "- (2 ^ 31) < max_iter" "max_iter \<le> 2 ^ 31"
  shows "mandelbrot_tile c_real c_imag max_iter =
     Inr (map (\<lambda>i. map (\<lambda>j. word_of_int (escape_count (c_real ! i ! j) (c_imag ! i ! j) max_iter))
                     [0..<w]) [0..<h])"
  using mandelbrot_tile_rect [OF assms(1,2), of max_iter] escape_count_fits [OF assms(3,4)]
  by simp

lemma mandelbrot_tile_rect_cells:
  assumes "rect h w c_real" "rect h w c_imag"
    and "mandelbrot_tile c_real c_imag max_iter = Inr divtime"
  shows "rect h w divtime \<and>
         (\<forall>i < h. \<forall>j < w.
            sint (divtime ! i ! j) = escape_count (c_real ! i ! j) (c_imag ! i ! j) max_iter)"
proof -
  let ?n = "\<lambda>i j. escape_count (c_real ! i ! j) (c_imag ! i ! j) max_iter"
  note eq = mandelbrot_tile_rect [OF assms(1,2), of max_iter]
  have fits: "\<forall>i < h. \<forall>j < w. fits_int32 (?n i j)"
  proof (rule ccontr)
    assume "\<not> (\<forall>i < h. \<forall>j < w. fits_int32 (?n i j))"
    from eq [unfolded if_not_P [OF this]] assms(3) show False by simp
  qed
  from eq [unfolded if_P [OF fits]] assms(3)
  have d: "divtime = map (\<lambda>i. map (\<lambda>j. word_of_int (?n i j)) [0..<w]) [0..<h]" by simp
  have "rect h w divtime" unfolding d by (auto simp: rect_def)
  moreover have "sint (divtime ! i ! j) = ?n i j" if "i < h" "j < w" for i j
  proof -
    from fits that have "fits_int32 (?n i j)" by blast
    then have "sint (word_of_int (?n i j) :: int32) = ?n i j"
      by (intro sint_word_of_int_int32) (simp_all add: fits_int32_def)
    then show ?thesis using that by (simp add: d)
  qed
  ultimately show ?thesis by blast
qed

lemma mandelbrot_tile_example: "mandelbrot_tile [[5, 0]] [[5, 0]] 3 = Inr [[1, 2]]"
  by (simp add: mandelbrot_tile_def shape_def divtime_cell_def at2_def store_int32_def
      escape_count_def escape_loop.simps)

section \<open>The escape-time evaluator follows the recurrence\<close>

text \<open>
  Claim C1. For every point of the input grids (two grids of equal shape, \<open>h\<close> rows of
  \<open>w\<close> cells) and every positive \<open>max_iter\<close>, \<^verbatim>\<open>mandelbrot_tile\<close> computes the count of
  the recurrence as the specification words it: the first step \<open>k\<close> in
  \<open>0 .. max_iter - 1\<close> at which the orbit of 0, updated by \<open>zi := 2 zr zi + ci\<close>,
  \<open>zr := zr\<^sup>2 - zi\<^sup>2 + cr\<close>, satisfies \<open>zr\<^sup>2 + zi\<^sup>2 > 4\<close>, and \<open>max_iter - 1\<close> when no step
  does. The evaluator returns the grid of these counts, one cell for each input point, if
  all of them fit a 32-bit cell, and raises \<^verbatim>\<open>OverflowError\<close> otherwise; they all fit when
  \<open>max_iter \<le> 2\<^sup>3\<^sup>1\<close>, so that a grid is returned then; and every grid that is returned has
  the shape of the inputs and holds at \<open>(i, j)\<close> the count of the point \<open>(i, j)\<close>.
\<close>

theorem mandelbrot_tile_recurrence:
  assumes "0 < max_iter" and "rect h w c_real" and "rect h w c_imag"
  shows "mandelbrot_tile c_real c_imag max_iter =
           (if \<forall>i < h. \<forall>j < w. fits_int32 (spec_count (c_real ! i ! j) (c_imag ! i ! j) max_iter)
            then Inr (map (\<lambda>i. map (\<lambda>j. word_of_int
                        (spec_count (c_real ! i ! j) (c_imag ! i ! j) max_iter)) [0..<w]) [0..<h])
            else Inl OverflowError) \<and>
         (max_iter \<le> 2 ^ 31 \<longrightarrow>
            (\<exists>divtime. mandelbrot_tile c_real c_imag max_iter = Inr divtime)) \<and>
         (\<forall>divtime. mandelbrot_tile c_real c_imag max_iter = Inr divtime \<longrightarrow>
            rect h w divtime \<and>
            (\<forall>i < h. \<forall>j < w.
               sint (divtime ! i ! j) = spec_count (c_real ! i ! j) (c_imag ! i ! j) max_iter))"
proof (intro conjI impI allI)
  show "mandelbrot_tile c_real c_imag max_iter =
           (if \<forall>i < h. \<forall>j < w. fits_int32 (spec_count (c_real ! i ! j) (c_imag ! i ! j) max_iter)
            then Inr (map (\<lambda>i. map (\<lambda>j. word_of_int
                        (spec_count (c_real ! i ! j) (c_imag ! i ! j) max_iter)) [0..<w]) [0..<h])
            else Inl OverflowError)"
    using mandelbrot_tile_rect [OF assms(2,3), of max_iter] by (simp only: escape_count_spec)
next
  assume "max_iter \<le> 2 ^ 31"
  with assms(1) have "- (2 ^ 31) < max_iter" "max_iter \<le> 2 ^ 31" by simp_all
  from mandelbrot_tile_returns [OF assms(2,3) this]
  show "\<exists>divtime. mandelbrot_tile c_real c_imag max_iter = Inr divtime" by blast
next
  fix divtime
  assume "mandelbrot_tile c_real c_imag max_iter = Inr divtime"
  from mandelbrot_tile_rect_cells [OF assms(2,3) this]
  show "rect h w divtime" by blast
next
  fix divtime i j
  assume "mandelbrot_tile c_real c_imag max_iter = Inr divtime" "i < h" "j < w"
  with mandelbrot_tile_rect_cells [OF assms(2,3)]
  show "sint (divtime ! i ! j) = spec_count (c_real ! i ! j) (c_imag ! i ! j) max_iter"
    by (simp add: escape_count_spec)
qed

theorem mandelbrot_tile_recurrence_witness:
  "(0 :: int) < 3 \<and> rect 1 2 [[5, 0 :: real]] \<and> (3 :: int) \<le> 2 ^ 31 \<and>
   mandelbrot_tile [[5, 0]] [[5, 0]] 3 = Inr [[1, 2]] \<and> rect 1 2 [[1, 2 :: int32]] \<and>
   sint ([[1, 2 :: int32]] ! 0 ! 0) = spec_count ([[5, 0]] ! 0 ! 0) ([[5, 0]] ! 0 ! 0) 3 \<and>
   sint ([[1, 2 :: int32]] ! 0 ! 1) = spec_count ([[5, 0]] ! 0 ! 1) ([[5, 0]] ! 0 ! 1) 3"
proof -
  have r: "rect 1 2 [[5, 0 :: real]]" by (simp add: rect_def)
  from mandelbrot_tile_recurrence [of 3 1 2 "[[5, 0]]" "[[5, 0]]"] r mandelbrot_tile_example
  have "rect 1 2 [[1, 2 :: int32]] \<and>
     (\<forall>i < 1. \<forall>j < 2. sint ([[1, 2 :: int32]] ! i ! j) =
        spec_count ([[5, 0]] ! i ! j) ([[5, 0]] ! i ! j) 3)"
    by simp
  then have c: "rect 1 2 [[1, 2 :: int32]]"
    and d: "\<And>i j. i < 1 \<Longrightarrow> j < 2 \<Longrightarrow> sint ([[1, 2 :: int32]] ! i ! j) =
        spec_count ([[5, 0]] ! i ! j) ([[5, 0]] ! i ! j) 3"
    by blast+
  from d [of 0 0] d [of 0 1] c r mandelbrot_tile_example show ?thesis by simp
qed

section \<open>Points outside the circle of radius 2\<close>

lemma mandelbrot_tile_outside_example: "mandelbrot_tile [[5]] [[5]] 2 = Inr [[1]]"
  by (simp add: mandelbrot_tile_def shape_def divtime_cell_def at2_def store_int32_def
      escape_count_def escape_loop.simps)

text \<open>
  Claim C2 says that a point with \<open>|c| > 2\<close> is recorded with count 0 for every positive
  \<open>max_iter\<close>. The loop tests before it updates: the test of step 0 sees \<open>z = 0\<close>, the
  test of step 1 sees \<open>z = c\<close>. For \<open>c = 5 + 5i\<close> and \<open>max_iter = 2\<close> the recorded count
  is 1.
\<close>

theorem outside_point_count_counterexample:
  "(5 :: real) * 5 + 5 * 5 > 4 \<and> (0 :: int) < 2 \<and>
   mandelbrot_tile [[5]] [[5]] 2 = Inr [[1]] \<and> sint ([[1 :: int32]] ! 0 ! 0) \<noteq> 0"
  using mandelbrot_tile_outside_example by simp

text \<open>
  The program evaluates the test \<open>zr2 + zi2 > 4\<close> in binary64. Whatever the rounding \<open>rd\<close>
  of the two products and of their sum, as long as each result is within the relative
  error \<open>2\<^sup>-\<^sup>5\<^sup>3\<close> of binary64 (and a small absolute error, for results near 0), a point
  with \<open>cr\<^sup>2 + ci\<^sup>2 \<ge> 4 + 2\<^sup>-\<^sup>4\<^sup>8\<close> passes the rounded test as it passes the exact one. Closer
  to the circle the rounded sum can be exactly 4 where the exact sum is larger, and the
  program then finds the escape later than the model. (A product too large for binary64
  is plus infinity, and the test succeeds as well.)
\<close>

lemma rounded_escape_test:
  fixes rd :: "real \<Rightarrow> real" and cr ci :: real
  assumes rd: "\<And>x. \<bar>rd x - x\<bar> \<le> \<bar>x\<bar> / 2 ^ 53 + 1 / 2 ^ 60"
    and out: "4 + 1 / 2 ^ 48 \<le> cr * cr + ci * ci"
  shows "4 < rd (rd (cr * cr) + rd (ci * ci))"
proof -
  define u :: real where "u = 1 / 2 ^ 53"
  define d :: real where "d = 1 / 2 ^ 60"
  define a b where "a = cr * cr" and "b = ci * ci"
  have a0: "0 \<le> a" and b0: "0 \<le> b" by (simp_all add: a_def b_def)
  have u1: "0 \<le> 1 - u" by (simp add: u_def)
  have low: "x - x * u - d \<le> rd x" if "0 \<le> x" for x
    using rd [of x] that by (simp add: abs_le_iff u_def d_def)
  from low [OF a0] low [OF b0]
  have "(a + b) * (1 - u) - 2 * d \<le> rd a + rd b" by (simp add: algebra_simps)
  moreover have "(4 + 1 / 2 ^ 48) * (1 - u) \<le> (a + b) * (1 - u)"
    using out u1 unfolding a_def b_def by (intro mult_right_mono) simp_all
  moreover have "4 + 1 / 2 ^ 49 \<le> (4 + 1 / 2 ^ 48) * (1 - u) - 2 * d"
    by (simp add: u_def d_def)
  ultimately have s: "4 + 1 / 2 ^ 49 \<le> rd a + rd b" by linarith
  then have "0 \<le> rd a + rd b" by simp
  from low [OF this] have "(rd a + rd b) * (1 - u) - d \<le> rd (rd a + rd b)"
    by (simp add: algebra_simps)
  moreover have "(4 + 1 / 2 ^ 49) * (1 - u) \<le> (rd a + rd b) * (1 - u)"
    using s u1 by (intro mult_right_mono) simp_all
  moreover have "4 < (4 + 1 / 2 ^ 49) * (1 - u) - d"
    by (simp add: u_def d_def)
  ultimately have "4 < rd (rd a + rd b)" by linarith
  then show ?thesis by (simp only: a_def b_def)
qed

text \<open>
  Claim C2, amended. For every point \<open>(i, j)\<close> of the input grids with \<open>cr\<^sup>2 + ci\<^sup>2 > 4\<close>,
  that is \<open>|c| > 2\<close>, and every positive \<open>max_iter\<close>: the evaluator returns a grid when
  \<open>max_iter \<le> 2\<^sup>3\<^sup>1\<close>, every grid it returns has a cell for the point, and the count in that
  cell is 0 for \<open>max_iter = 1\<close>, at least 1 for \<open>max_iter \<ge> 2\<close>, and exactly 1 for
  \<open>max_iter \<ge> 2\<close> when \<open>cr\<^sup>2 + ci\<^sup>2 \<ge> 4 + 2\<^sup>-\<^sup>4\<^sup>8\<close>, the margin by which the test is the same
  in binary64 as in exact arithmetic.
\<close>

theorem outside_point_count:
  assumes "rect h w c_real" and "rect h w c_imag" and "i < h" and "j < w"
    and "c_real ! i ! j * c_real ! i ! j + c_imag ! i ! j * c_imag ! i ! j > 4"
    and "0 < max_iter"
  shows "(max_iter \<le> 2 ^ 31 \<longrightarrow>
            (\<exists>divtime. mandelbrot_tile c_real c_imag max_iter = Inr divtime)) \<and>
         (\<forall>divtime. mandelbrot_tile c_real c_imag max_iter = Inr divtime \<longrightarrow>
            i < length divtime \<and> j < length (divtime ! i) \<and>
            (max_iter = 1 \<longrightarrow> sint (divtime ! i ! j) = 0) \<and>
            (2 \<le> max_iter \<longrightarrow> 1 \<le> sint (divtime ! i ! j)) \<and>
            (2 \<le> max_iter \<and>
             4 + 1 / 2 ^ 48 \<le> c_real ! i ! j * c_real ! i ! j + c_imag ! i ! j * c_imag ! i ! j \<longrightarrow>
               sint (divtime ! i ! j) = 1))"
proof (intro conjI impI allI)
  assume "max_iter \<le> 2 ^ 31"
  with assms(6) have "- (2 ^ 31) < max_iter" "max_iter \<le> 2 ^ 31" by simp_all
  from mandelbrot_tile_returns [OF assms(1,2) this]
  show "\<exists>divtime. mandelbrot_tile c_real c_imag max_iter = Inr divtime" by blast
next
  fix divtime
  assume t: "mandelbrot_tile c_real c_imag max_iter = Inr divtime"
  note c = mandelbrot_tile_rect_cells [OF assms(1,2) t]
  then have r: "rect h w divtime" by blast
  then show "i < length divtime" using assms(3) by (simp add: rect_def)
  from rect_nth [OF r assms(3)] assms(4) show "j < length (divtime ! i)" by simp
  from c assms(3,4)
  have s: "sint (divtime ! i ! j) = escape_count (c_real ! i ! j) (c_imag ! i ! j) max_iter"
    by blast
  {
    assume "max_iter = 1"
    then show "sint (divtime ! i ! j) = 0" by (simp add: s escape_count_one)
  }
  {
    assume "2 \<le> max_iter"
    then show "1 \<le> sint (divtime ! i ! j)" by (simp add: s escape_count_ge_one)
  }
  {
    assume "2 \<le> max_iter \<and>
      4 + 1 / 2 ^ 48 \<le> c_real ! i ! j * c_real ! i ! j + c_imag ! i ! j * c_imag ! i ! j"
    then have "2 \<le> max_iter" by blast
    from escape_count_outside [OF assms(5) this] show "sint (divtime ! i ! j) = 1" by (simp add: s)
  }
qed

theorem outside_point_count_witness:
  "rect 1 1 [[5 :: real]] \<and> (0 :: nat) < 1 \<and>
   ([[5 :: real]] ! 0 ! 0) * ([[5]] ! 0 ! 0) + ([[5]] ! 0 ! 0) * ([[5]] ! 0 ! 0) > 4 \<and>
   (0 :: int) < 2 \<and> (2 :: int) \<le> 2 ^ 31 \<and>
   4 + 1 / 2 ^ 48 \<le> ([[5 :: real]] ! 0 ! 0) * ([[5]] ! 0 ! 0) + ([[5]] ! 0 ! 0) * ([[5]] ! 0 ! 0) \<and>
   mandelbrot_tile [[5]] [[5]] 2 = Inr [[1]] \<and>
   (0 :: nat) < length [[1 :: int32]] \<and> (0 :: nat) < length ([[1 :: int32]] ! 0) \<and>
   sint ([[1 :: int32]] ! 0 ! 0) = 1"
proof -
  have r: "rect 1 1 [[5 :: real]]" by (simp add: rect_def)
  from outside_point_count [of 1 1 "[[5]]" "[[5]]" 0 0 2] r mandelbrot_tile_outside_example
  show ?thesis by simp
qed

section \<open>A count of 0 needs \<open>max_iter = 1\<close>\<close>

text \<open>
  Claim C10. The escape test comes before the first orbit update, while \<open>z\<close> is still 0,
  so no point escapes at \<open>k = 0\<close>: a cell of the output holds 0 exactly when
  \<open>max_iter = 1\<close>, whatever the coordinates, and it holds at least 1 exactly when
  \<open>max_iter \<ge> 2\<close>.
\<close>

theorem first_test_never_escapes:
  assumes "mandelbrot_tile c_real c_imag max_iter = Inr divtime"
    and "i < length divtime" and "j < length (divtime ! i)"
  shows "(sint (divtime ! i ! j) = 0 \<longleftrightarrow> max_iter = 1) \<and>
         (1 \<le> sint (divtime ! i ! j) \<longleftrightarrow> 2 \<le> max_iter)"
proof -
  let ?n = "escape_count (c_real ! i ! j) (c_imag ! i ! j) max_iter"
  have s: "sint (divtime ! i ! j) = ?n" using mandelbrot_tile_cell [OF assms] by simp
  have z: "?n = 0 \<longleftrightarrow> max_iter = 1" by (rule escape_count_zero_iff)
  have "1 \<le> ?n \<longleftrightarrow> 2 \<le> max_iter"
  proof (cases "2 \<le> max_iter")
    case True
    then show ?thesis by (simp add: escape_count_ge_one)
  next
    case False
    show ?thesis
    proof (cases "max_iter = 1")
      case True
      then show ?thesis by (simp add: escape_count_one)
    next
      case ne: False
      with False have "max_iter \<le> 0" by simp
      then show ?thesis by (simp add: escape_count_nonpos)
    qed
  qed
  with s z show ?thesis by simp
qed

lemma mandelbrot_tile_one_example: "mandelbrot_tile [[5, 0]] [[5, 0]] 1 = Inr [[0, 0]]"
  by (simp add: mandelbrot_tile_def shape_def divtime_cell_def at2_def store_int32_def
      escape_count_def escape_loop.simps)

theorem first_test_never_escapes_witness:
  "mandelbrot_tile [[5, 0]] [[5, 0]] 3 = Inr [[1, 2]] \<and>
   (0 :: nat) < length [[1, 2 :: int32]] \<and> (0 :: nat) < length ([[1, 2 :: int32]] ! 0) \<and>
   (sint ([[1, 2 :: int32]] ! 0 ! 0) = 0 \<longleftrightarrow> (3 :: int) = 1) \<and>
   (1 \<le> sint ([[1, 2 :: int32]] ! 0 ! 0) \<longleftrightarrow> (2 :: int) \<le> 3) \<and>
   mandelbrot_tile [[5, 0]] [[5, 0]] 1 = Inr [[0, 0]] \<and>
   (sint ([[0, 0 :: int32]] ! 0 ! 0) = 0 \<longleftrightarrow> (1 :: int) = 1)"
  using first_test_never_escapes [of "[[5, 0]]" "[[5, 0]]" 3 "[[1, 2]]" 0 0]
    first_test_never_escapes [of "[[5, 0]]" "[[5, 0]]" 1 "[[0, 0]]" 0 0]
    mandelbrot_tile_example mandelbrot_tile_one_example
  by simp

section \<open>The tiles partition the raster\<close>

lemma tile_index_less_iff:
  fixes w ts tx :: int
  assumes ts: "0 < ts"
  shows "tx < (w + ts - 1) div ts \<longleftrightarrow> tx * ts < w"
proof -
  define q where "q = (w + ts - 1) div ts"
  define r where "r = (w + ts - 1) mod ts"
  have r: "0 \<le> r" "r < ts" using ts by (simp_all add: r_def)
  have eq: "w + ts - 1 = q * ts + r" by (simp add: q_def r_def)
  show ?thesis
  proof
    assume "tx < (w + ts - 1) div ts"
    then have "tx + 1 \<le> q" by (simp add: q_def)
    then have "(tx + 1) * ts \<le> q * ts" using ts by (simp add: mult_right_mono)
    then have "tx * ts + ts \<le> q * ts" by (simp add: algebra_simps)
    then show "tx * ts < w" using eq r by linarith
  next
    assume lt: "tx * ts < w"
    show "tx < (w + ts - 1) div ts"
    proof (rule ccontr)
      assume "\<not> tx < (w + ts - 1) div ts"
      then have "q \<le> tx" by (simp add: q_def)
      then have "q * ts \<le> tx * ts" using ts by (simp add: mult_right_mono)
      then show False using eq r lt by linarith
    qed
  qed
qed

lemma tile_index_unique:
  fixes x ts tx :: int
  assumes "0 < ts" "tx * ts \<le> x" "x < tx * ts + ts"
  shows "tx = x div ts"
proof -
  have "x = ts * tx + (x - tx * ts)" by (simp add: algebra_simps)
  from int_div_pos_eq [OF this] assms show ?thesis by simp
qed

lemma tile_index_div:
  fixes x ts :: int
  assumes "0 < ts"
  shows "x div ts * ts \<le> x \<and> x < x div ts * ts + ts"
proof -
  have "x = x div ts * ts + x mod ts" by simp
  moreover have "0 \<le> x mod ts" "x mod ts < ts" using assms by simp_all
  ultimately show ?thesis by linarith
qed

lemma set_py_range: "set (py_range n) = {0..<n}"
  by (auto simp: py_range_def)

lemma set_tile_grid:
  "set (tile_grid width height tile_size) =
     {0..<(height + tile_size - 1) div tile_size} \<times> {0..<(width + tile_size - 1) div tile_size}"
  by (simp add: tile_grid_def set_py_range)

lemma distinct_tile_grid: "distinct (tile_grid width height tile_size)"
  by (simp add: tile_grid_def py_range_def distinct_product)

lemma in_tile_iff:
  "in_tile width height tile_size (ty, tx) x y \<longleftrightarrow>
     tx * tile_size \<le> x \<and> x < tx * tile_size + tile_size \<and> x < width \<and>
     ty * tile_size \<le> y \<and> y < ty * tile_size + tile_size \<and> y < height"
  by (auto simp: in_tile_def tile_bounds_def Let_def)

lemma pixel_tile:
  assumes "0 < tile_size" "0 \<le> x" "x < width" "0 \<le> y" "y < height"
  shows "(y div tile_size, x div tile_size) \<in> set (tile_grid width height tile_size) \<and>
         in_tile width height tile_size (y div tile_size, x div tile_size) x y"
proof -
  have "x div tile_size * tile_size < width" "y div tile_size * tile_size < height"
    using tile_index_div [OF assms(1), of x] tile_index_div [OF assms(1), of y] assms by linarith+
  moreover have "0 \<le> x div tile_size" "0 \<le> y div tile_size"
    using assms by (simp_all add: pos_imp_zdiv_nonneg_iff)
  ultimately show ?thesis
    using assms tile_index_div [OF assms(1), of x] tile_index_div [OF assms(1), of y]
    by (simp add: set_tile_grid in_tile_iff tile_index_less_iff)
qed

lemma in_tile_unique:
  assumes "0 < tile_size" "in_tile width height tile_size t x y"
  shows "t = (y div tile_size, x div tile_size)"
  using assms tile_index_unique [of tile_size "snd t" x] tile_index_unique [of tile_size "fst t" y]
  by (cases t) (simp add: in_tile_iff)

lemma in_tile_raster:
  assumes "0 < tile_size" "t \<in> set (tile_grid width height tile_size)"
    "in_tile width height tile_size t x y"
  shows "0 \<le> x \<and> x < width \<and> 0 \<le> y \<and> y < height"
proof -
  obtain ty tx where t: "t = (ty, tx)" by (cases t)
  from assms(2) have "0 \<le> tx" "0 \<le> ty" by (auto simp: t set_tile_grid)
  then have "0 \<le> tx * tile_size" "0 \<le> ty * tile_size" using assms(1) by simp_all
  then show ?thesis using assms(3) by (simp add: t in_tile_iff)
qed

text \<open>
  Claim C7. For every positive \<open>tile_size\<close> the tiles visited by the loops are pairwise
  different, every pixel of the \<open>width\<close> by \<open>height\<close> raster lies in the rectangle of
  exactly one of them, and no tile rectangle holds a pixel outside the raster.
\<close>

theorem tile_partition:
  assumes "0 < tile_size"
  shows "distinct (tile_grid width height tile_size) \<and>
         (\<forall>x y. 0 \<le> x \<and> x < width \<and> 0 \<le> y \<and> y < height \<longrightarrow>
            (\<exists>!t. t \<in> set (tile_grid width height tile_size) \<and> in_tile width height tile_size t x y)) \<and>
         (\<forall>t x y. t \<in> set (tile_grid width height tile_size) \<and> in_tile width height tile_size t x y \<longrightarrow>
            0 \<le> x \<and> x < width \<and> 0 \<le> y \<and> y < height)"
proof (intro conjI allI impI)
  show "distinct (tile_grid width height tile_size)" by (rule distinct_tile_grid)
next
  fix x y
  assume "0 \<le> x \<and> x < width \<and> 0 \<le> y \<and> y < height"
  then have "(y div tile_size, x div tile_size) \<in> set (tile_grid width height tile_size) \<and>
      in_tile width height tile_size (y div tile_size, x div tile_size) x y"
    using pixel_tile [OF assms, of x width y height] by simp
  then show "\<exists>!t. t \<in> set (tile_grid width height tile_size) \<and> in_tile width height tile_size t x y"
    using in_tile_unique [OF assms] by blast
next
  fix t x y
  assume "t \<in> set (tile_grid width height tile_size) \<and> in_tile width height tile_size t x y"
  then show "0 \<le> x" "x < width" "0 \<le> y" "y < height"
    using in_tile_raster [OF assms, of t width height x y] by simp_all
qed

lemma tile_grid_example: "tile_grid 3 2 2 = [(0, 0), (0, 1)]"
  by (simp add: tile_grid_def py_range_def upto.simps)

theorem tile_partition_witness:
  "(0 :: int) < 2 \<and> distinct (tile_grid 3 2 2) \<and>
   (\<exists>!t. t \<in> set (tile_grid 3 2 2) \<and> in_tile 3 2 2 t 2 1) \<and>
   (0, 1) \<in> set (tile_grid 3 2 2) \<and> in_tile 3 2 2 (0, 1) 2 1"
  using tile_partition [of 2 3 2] by (simp add: tile_grid_example in_tile_iff)

section \<open>The coordinate grids of a tile\<close>

lemma length_np_arange: "length (np_arange a b) = nat (b - a)"
  by (simp add: np_arange_def)

lemma nth_np_arange: "k < nat (b - a) \<Longrightarrow> np_arange a b ! k = a + int k"
  by (simp add: np_arange_def nth_upto)

lemma np_meshgrid_rect:
  "np_meshgrid xs ys = (X, Y) \<Longrightarrow> rect (length ys) (length xs) X \<and> rect (length ys) (length xs) Y"
  by (auto simp: np_meshgrid_def rect_def)

lemma np_meshgrid_nth:
  "np_meshgrid xs ys = (X, Y) \<Longrightarrow> i < length ys \<Longrightarrow> j < length xs \<Longrightarrow>
     X ! i ! j = xs ! j \<and> Y ! i ! j = ys ! i"
  by (auto simp: np_meshgrid_def)

lemma tile_coords_rect:
  assumes "tile_coords x_min y_min x_scale y_scale (x_start, x_end, y_start, y_end) = (X_tile, Y_tile)"
  shows "rect (nat (y_end - y_start)) (nat (x_end - x_start)) X_tile \<and>
         rect (nat (y_end - y_start)) (nat (x_end - x_start)) Y_tile"
proof -
  let ?xs = "map (\<lambda>x. x_min + real_of_int x * x_scale) (np_arange x_start x_end)"
  let ?ys = "map (\<lambda>y. y_min + real_of_int y * y_scale) (np_arange y_start y_end)"
  have m: "np_meshgrid ?xs ?ys = (X_tile, Y_tile)"
    using assms by (simp add: tile_coords_def Let_def)
  from np_meshgrid_rect [OF m] show ?thesis by (simp add: length_np_arange)
qed

lemma tile_coords_nth:
  assumes "tile_coords x_min y_min x_scale y_scale (x_start, x_end, y_start, y_end) = (X_tile, Y_tile)"
    "i < nat (y_end - y_start)" "j < nat (x_end - x_start)"
  shows "X_tile ! i ! j = x_min + real_of_int (x_start + int j) * x_scale \<and>
         Y_tile ! i ! j = y_min + real_of_int (y_start + int i) * y_scale"
proof -
  let ?xs = "map (\<lambda>x. x_min + real_of_int x * x_scale) (np_arange x_start x_end)"
  let ?ys = "map (\<lambda>y. y_min + real_of_int y * y_scale) (np_arange y_start y_end)"
  have m: "np_meshgrid ?xs ?ys = (X_tile, Y_tile)"
    using assms(1) by (simp add: tile_coords_def Let_def)
  have "X_tile ! i ! j = ?xs ! j \<and> Y_tile ! i ! j = ?ys ! i"
    using np_meshgrid_nth [OF m, of i j] assms(2,3) by (simp add: length_np_arange)
  then show ?thesis using assms(2,3) by (simp add: length_np_arange nth_np_arange)
qed

text \<open>
  Claim C6. For a raster of positive \<open>width\<close> and \<open>height\<close> and any viewport, the two
  coordinate grids of tile \<open>(tx, ty)\<close> have the same shape, the tile's height by the
  tile's width, and the cell in row \<open>i\<close> and column \<open>j\<close> holds
  \<open>x_min + x (x_max - x_min) / width\<close> and \<open>y_min + y (y_max - y_min) / height\<close> for the
  global pixel indices \<open>x = x_start + j\<close> and \<open>y = y_start + i\<close>.
\<close>

theorem tile_coords_affine:
  assumes "0 < width" and "0 < height"
    and "tile_bounds width height tile_size tx ty = (x_start, x_end, y_start, y_end)"
    and "tile_coords x_min y_min ((x_max - x_min) / real_of_int width)
           ((y_max - y_min) / real_of_int height) (x_start, x_end, y_start, y_end) = (X_tile, Y_tile)"
  shows "rect (nat (y_end - y_start)) (nat (x_end - x_start)) X_tile \<and>
         rect (nat (y_end - y_start)) (nat (x_end - x_start)) Y_tile \<and>
         (\<forall>i < nat (y_end - y_start). \<forall>j < nat (x_end - x_start).
            X_tile ! i ! j = x_min + real_of_int (x_start + int j) * (x_max - x_min) / real_of_int width \<and>
            Y_tile ! i ! j = y_min + real_of_int (y_start + int i) * (y_max - y_min) / real_of_int height)"
  using tile_coords_rect [OF assms(4)] tile_coords_nth [OF assms(4)] by simp

lemma tile_bounds_example: "tile_bounds 3 2 2 1 0 = (2, 3, 0, 2)"
  by (simp add: tile_bounds_def)

lemma tile_coords_example:
  "tile_coords (-2) (-1) ((1 - (-2)) / real_of_int 3) ((1 - (-1)) / real_of_int 2) (2, 3, 0, 2)
     = ([[0], [0]], [[-1], [0]])"
  by (simp add: tile_coords_def np_arange_def np_meshgrid_def upto.simps)

theorem tile_coords_affine_witness:
  "(0 :: int) < 3 \<and> (0 :: int) < 2 \<and> tile_bounds 3 2 2 1 0 = (2, 3, 0, 2) \<and>
   tile_coords (-2) (-1) ((1 - (-2)) / real_of_int 3) ((1 - (-1)) / real_of_int 2) (2, 3, 0, 2)
     = ([[0], [0]], [[-1], [0]]) \<and>
   rect (nat (2 - 0)) (nat (3 - 2)) [[0 :: real], [0]] \<and>
   [[0 :: real], [0]] ! 1 ! 0 = -2 + real_of_int (2 + int 0) * (1 - (-2)) / real_of_int 3 \<and>
   [[-1 :: real], [0]] ! 1 ! 0 = -1 + real_of_int (0 + int 1) * (1 - (-1)) / real_of_int 2"
proof -
  note w = tile_coords_affine [of 3 2 2 1 0 2 3 0 2 "-2" "-1" 1 1 "[[0], [0]]" "[[-1], [0]]"]
  have "(1 :: nat) < nat (2 - 0)" "(0 :: nat) < nat (3 - 2)" by simp_all
  then show ?thesis using w tile_bounds_example tile_coords_example by simp
qed

section \<open>Arrays and block assignment\<close>

lemma rect_replicate: "rect h w (replicate h (replicate w c))"
  by (simp add: rect_def)

lemma rect_eqI:
  assumes "rect h w a" "rect h w b" "\<And>i j. i < h \<Longrightarrow> j < w \<Longrightarrow> a ! i ! j = b ! i ! j"
  shows "a = b"
proof (rule nth_equalityI)
  show "length a = length b" using assms(1,2) by (simp add: rect_def)
next
  fix i assume i: "i < length a"
  then have ih: "i < h" using assms(1) by (simp add: rect_def)
  show "a ! i = b ! i"
  proof (rule nth_equalityI)
    show "length (a ! i) = length (b ! i)" using assms(1,2) ih by (simp add: rect_nth)
  next
    fix j assume "j < length (a ! i)"
    then have "j < w" using assms(1) ih by (simp add: rect_nth)
    then show "a ! i ! j = b ! i ! j" using assms(3) ih by simp
  qed
qed

lemma concat_cell: "c \<in> set (concat a) \<longleftrightarrow> (\<exists>i < length a. \<exists>j < length (a ! i). c = a ! i ! j)"
proof
  assume "c \<in> set (concat a)"
  then obtain row where "row \<in> set a" "c \<in> set row" by auto
  then obtain i j where "i < length a" "row = a ! i" "j < length row" "c = row ! j"
    by (metis in_set_conv_nth)
  then show "\<exists>i < length a. \<exists>j < length (a ! i). c = a ! i ! j" by blast
next
  assume "\<exists>i < length a. \<exists>j < length (a ! i). c = a ! i ! j"
  then obtain i j where "i < length a" "j < length (a ! i)" "c = a ! i ! j" by blast
  then have "a ! i \<in> set a" "c \<in> set (a ! i)" by simp_all
  then show "c \<in> set (concat a)" by auto
qed

lemma slice_bound_le: "slice_bound n i \<le> n"
  by (simp add: slice_bound_def nat_le_iff)

lemma slice_bound_nat: "slice_bound n (int k) = min k n"
  by (simp add: slice_bound_def)

lemma assign_block_cells:
  assumes "assign_block result y_start y_end x_start x_end tile_result = Inr r"
  shows "set (concat r) \<subseteq> set (concat result) \<union> set (concat tile_result)"
proof
  fix c assume "c \<in> set (concat r)"
  then obtain row where row: "row \<in> set r" "c \<in> set row" by auto
  obtain h w where hw: "shape result = (h, w)" by (cases "shape result")
  then have h: "h = length result" by (simp add: shape_def)
  define y0 where "y0 = slice_bound h y_start"
  define y1 where "y1 = max y0 (slice_bound h y_end)"
  define x0 where "x0 = slice_bound w x_start"
  define x1 where "x1 = max x0 (slice_bound w x_end)"
  from assms hw have len: "length tile_result = y1 - y0"
    and r: "r = map (\<lambda>y. if y0 \<le> y \<and> y < y1
                then take x0 (result ! y) @ tile_result ! (y - y0) @ drop x1 (result ! y)
                else result ! y) [0..<h]"
    by (auto simp: assign_block_def Let_def y0_def y1_def x0_def x1_def split: if_splits)
  from row(1) r obtain y where y: "y < h"
    "row = (if y0 \<le> y \<and> y < y1
            then take x0 (result ! y) @ tile_result ! (y - y0) @ drop x1 (result ! y)
            else result ! y)"
    by auto
  show "c \<in> set (concat result) \<union> set (concat tile_result)"
  proof (cases "y0 \<le> y \<and> y < y1")
    case False
    with y row(2) h show ?thesis by auto
  next
    case True
    then have t: "y - y0 < length tile_result" using len by linarith
    from True y row(2) have "c \<in> set (take x0 (result ! y)) \<or> c \<in> set (tile_result ! (y - y0)) \<or>
        c \<in> set (drop x1 (result ! y))" by auto
    then show ?thesis
    proof (elim disjE)
      assume "c \<in> set (take x0 (result ! y))"
      then have "c \<in> set (result ! y)" by (rule in_set_takeD)
      then show ?thesis using y(1) h by auto
    next
      assume "c \<in> set (tile_result ! (y - y0))"
      then show ?thesis using t by auto
    next
      assume "c \<in> set (drop x1 (result ! y))"
      then have "c \<in> set (result ! y)" by (rule in_set_dropD)
      then show ?thesis using y(1) h by auto
    qed
  qed
qed

lemma assign_block_length:
  "assign_block result y_start y_end x_start x_end tile_result = Inr r \<Longrightarrow> length r = length result"
  by (auto simp: assign_block_def Let_def shape_def split: if_splits prod.splits)

lemma rect_map_nth:
  "rect h w a \<Longrightarrow> map (\<lambda>y. map (\<lambda>x. a ! y ! x) [0..<w]) [0..<h] = a"
proof -
  assume r: "rect h w a"
  have "map (\<lambda>y. map (\<lambda>x. a ! y ! x) [0..<w]) [0..<h] = map (\<lambda>y. a ! y) [0..<h]"
  proof (rule map_cong [OF refl])
    fix y assume "y \<in> set [0..<h]"
    then have "length (a ! y) = w" using r by (simp add: rect_nth)
    then show "map (\<lambda>x. a ! y ! x) [0..<w] = a ! y" using map_nth [of "a ! y"] by simp
  qed
  also have "\<dots> = a" using r map_nth [of a] by (simp add: rect_def)
  finally show ?thesis .
qed

lemma rect_map: "rect h w (map (\<lambda>y. map (f y) [0..<w]) [0..<h])"
  by (auto simp: rect_def)

lemma splice_row:
  assumes "length row = w" "x0 \<le> x1" "x1 \<le> w" "length seg = x1 - x0"
  shows "take x0 row @ seg @ drop x1 row =
         map (\<lambda>x. if x0 \<le> x \<and> x < x1 then seg ! (x - x0) else row ! x) [0..<w]"
proof (rule nth_equalityI)
  show "length (take x0 row @ seg @ drop x1 row) =
        length (map (\<lambda>x. if x0 \<le> x \<and> x < x1 then seg ! (x - x0) else row ! x) [0..<w])"
    using assms by simp
next
  fix x assume "x < length (take x0 row @ seg @ drop x1 row)"
  then have x: "x < w" using assms by simp
  have l: "length (take x0 row) = x0" using assms by simp
  consider "x < x0" | "x0 \<le> x" "x < x1" | "x1 \<le> x" by linarith
  then have "(take x0 row @ seg @ drop x1 row) ! x =
      (if x0 \<le> x \<and> x < x1 then seg ! (x - x0) else row ! x)"
  proof cases
    case 1
    then show ?thesis using l by (simp add: nth_append)
  next
    case 2
    then have "x - x0 < length seg" using assms(4) by linarith
    then show ?thesis using 2 l by (simp add: nth_append)
  next
    case 3
    then have "x - x0 - length seg = x - x1" using assms(2,4) by linarith
    moreover have "\<not> x - x0 < length seg" using 3 assms(2,4) by linarith
    moreover have "\<not> x < x0" using 3 assms(2) by linarith
    ultimately show ?thesis using 3 l x assms(1,3) by (simp add: nth_append)
  qed
  then show "(take x0 row @ seg @ drop x1 row) ! x =
      map (\<lambda>x. if x0 \<le> x \<and> x < x1 then seg ! (x - x0) else row ! x) [0..<w] ! x"
    using x by simp
qed

lemma assign_block_valid:
  assumes "rect h w result" "0 < h" "y0 \<le> y1" "y1 \<le> h" "x0 \<le> x1" "x1 \<le> w"
    "rect (y1 - y0) (x1 - x0) tile_result"
  shows "assign_block result (int y0) (int y1) (int x0) (int x1) tile_result =
     Inr (map (\<lambda>y. map (\<lambda>x. if y0 \<le> y \<and> y < y1 \<and> x0 \<le> x \<and> x < x1
                               then tile_result ! (y - y0) ! (x - x0) else result ! y ! x) [0..<w])
              [0..<h])"
proof -
  have sh: "shape result = (h, w)" using assms(1,2) by (rule rect_shape)
  have b: "slice_bound h (int y0) = y0" "max y0 (slice_bound h (int y1)) = y1"
    "slice_bound w (int x0) = x0" "max x0 (slice_bound w (int x1)) = x1"
    using assms(3-6) by (simp_all add: slice_bound_nat)
  have t: "length tile_result = y1 - y0" "\<forall>r \<in> set tile_result. length r = x1 - x0"
    using assms(7) by (simp_all add: rect_def)
  have rows: "(if y0 \<le> y \<and> y < y1
          then take x0 (result ! y) @ tile_result ! (y - y0) @ drop x1 (result ! y)
          else result ! y) =
       map (\<lambda>x. if y0 \<le> y \<and> y < y1 \<and> x0 \<le> x \<and> x < x1
                 then tile_result ! (y - y0) ! (x - x0) else result ! y ! x) [0..<w]"
    if "y \<in> set [0..<h]" for y
  proof -
    from that have y: "y < h" by simp
    then have lr: "length (result ! y) = w" using assms(1) by (simp add: rect_nth)
    show ?thesis
    proof (cases "y0 \<le> y \<and> y < y1")
      case True
      then have "y - y0 < y1 - y0" by linarith
      then have "length (tile_result ! (y - y0)) = x1 - x0"
        using assms(7) by (simp add: rect_nth)
      from splice_row [OF lr assms(5,6) this] True show ?thesis by simp
    next
      case False
      then show ?thesis using lr map_nth [of "result ! y"] by auto
    qed
  qed
  have "assign_block result (int y0) (int y1) (int x0) (int x1) tile_result =
      Inr (map (\<lambda>y. if y0 \<le> y \<and> y < y1
                  then take x0 (result ! y) @ tile_result ! (y - y0) @ drop x1 (result ! y)
                  else result ! y) [0..<h])"
    using t by (simp add: assign_block_def sh b)
  also have "map (\<lambda>y. if y0 \<le> y \<and> y < y1
                  then take x0 (result ! y) @ tile_result ! (y - y0) @ drop x1 (result ! y)
                  else result ! y) [0..<h] =
      map (\<lambda>y. map (\<lambda>x. if y0 \<le> y \<and> y < y1 \<and> x0 \<le> x \<and> x < x1
                               then tile_result ! (y - y0) ! (x - x0) else result ! y ! x) [0..<w])
              [0..<h]"
    by (rule map_cong [OF refl]) (rule rows)
  finally show ?thesis .
qed

section \<open>Every count lies between 0 and \<open>max_iter - 1\<close>\<close>

text \<open>
  The cells of \<^verbatim>\<open>result\<close> start as 0 and are only ever overwritten with cells of a tile
  result, so a bound that holds for 0 and for every count of the evaluator holds for the
  buffer. This needs no assumption on the raster or the tile size.
\<close>

lemma mandelbrot_tile_cells_bounded:
  assumes "0 < max_iter" "mandelbrot_tile c_real c_imag max_iter = Inr divtime"
    "c \<in> set (concat divtime)"
  shows "0 \<le> sint c \<and> sint c \<le> max_iter - 1"
proof -
  from assms(3) obtain i j where ij: "i < length divtime" "j < length (divtime ! i)"
    "c = divtime ! i ! j" unfolding concat_cell by blast
  from mandelbrot_tile_cell [OF assms(2) ij(1,2)] ij(3)
  have "sint c = escape_count (c_real ! i ! j) (c_imag ! i ! j) max_iter" by simp
  then show ?thesis using escape_count_bounds [OF assms(1)] by simp
qed

lemma process_tile_cells_bounded:
  assumes "0 < max_iter"
    "process_tile width height max_iter x_min y_min x_scale y_scale tile_size result t = Inr r"
    "\<forall>c \<in> set (concat result). 0 \<le> sint c \<and> sint c \<le> max_iter - 1"
  shows "\<forall>c \<in> set (concat r). 0 \<le> sint c \<and> sint c \<le> max_iter - 1"
proof -
  obtain ty tx where t: "t = (ty, tx)" by (cases t)
  obtain x_start x_end y_start y_end where
    b: "tile_bounds width height tile_size tx ty = (x_start, x_end, y_start, y_end)"
    by (cases "tile_bounds width height tile_size tx ty")
  obtain X_tile Y_tile where
    c: "tile_coords x_min y_min x_scale y_scale (x_start, x_end, y_start, y_end) = (X_tile, Y_tile)"
    by (cases "tile_coords x_min y_min x_scale y_scale (x_start, x_end, y_start, y_end)")
  from assms(2) obtain tile_result where
    m: "mandelbrot_tile X_tile Y_tile max_iter = Inr tile_result" and
    a: "assign_block result y_start y_end x_start x_end tile_result = Inr r"
    by (auto simp: process_tile_def t b c split: sum.splits)
  from assign_block_cells [OF a] mandelbrot_tile_cells_bounded [OF assms(1) m] assms(3)
  show ?thesis by blast
qed

lemma process_tiles_cells_bounded:
  assumes "0 < max_iter"
  shows "process_tiles width height max_iter x_min y_min x_scale y_scale tile_size ts result = Inr r \<Longrightarrow>
    \<forall>c \<in> set (concat result). 0 \<le> sint c \<and> sint c \<le> max_iter - 1 \<Longrightarrow>
    \<forall>c \<in> set (concat r). 0 \<le> sint c \<and> sint c \<le> max_iter - 1"
proof (induction ts arbitrary: result)
  case Nil
  then show ?case by simp
next
  case (Cons t ts)
  from Cons.prems(1) obtain r1 where
    s: "process_tile width height max_iter x_min y_min x_scale y_scale tile_size result t = Inr r1"
    and rest: "process_tiles width height max_iter x_min y_min x_scale y_scale tile_size ts r1 = Inr r"
    by (auto split: sum.splits)
  from process_tile_cells_bounded [OF assms s Cons.prems(2)]
  have "\<forall>c \<in> set (concat r1). 0 \<le> sint c \<and> sint c \<le> max_iter - 1" .
  from Cons.IH [OF rest this] show ?case .
qed

lemma divergence_buffer_Inr:
  assumes "divergence_buffer width height max_iter x_min x_max y_min y_max tile_size = Inr result"
  shows "0 < width \<and> 0 < height \<and> tile_size \<noteq> 0 \<and>
    process_tiles width height max_iter x_min y_min ((x_max - x_min) / real_of_int width)
      ((y_max - y_min) / real_of_int height) tile_size (tile_grid width height tile_size)
      (replicate (nat height) (replicate (nat width) 0)) = Inr result"
proof -
  have w: "width \<noteq> 0" using assms by (auto simp: divergence_buffer_def)
  have h: "height \<noteq> 0" using assms w by (auto simp: divergence_buffer_def Let_def)
  have n: "\<not> (height < 0 \<or> width < 0)"
    using assms w h by (auto simp: divergence_buffer_def Let_def)
  have t: "tile_size \<noteq> 0" using assms w h n by (auto simp: divergence_buffer_def Let_def)
  show ?thesis using assms w h n t by (simp add: divergence_buffer_def Let_def)
qed

text \<open>A small render, evaluated step by step: two pixels, two tiles of one pixel.\<close>

lemmas eval_defs =
  process_tile_def tile_bounds_def tile_coords_def np_arange_def np_meshgrid_def
  mandelbrot_tile_def shape_def divtime_cell_def at2_def store_int32_def
  escape_count_def escape_loop.simps assign_block_def slice_bound_def

lemma process_tile_example_0:
  "process_tile 2 1 3 (-3) 0 3 1 1 [[0, 0]] (0, 0) = Inr [[1, 0]]"
  by (simp add: eval_defs)

lemma process_tile_example_1:
  "process_tile 2 1 3 (-3) 0 3 1 1 [[1, 0]] (0, 1) = Inr [[1, 2]]"
  by (simp add: eval_defs)

lemma tile_grid_example_2: "tile_grid 2 1 1 = [(0, 0), (0, 1)]"
  by (simp add: tile_grid_def py_range_def upto.simps)

lemma divergence_buffer_example: "divergence_buffer 2 1 3 (-3) 3 0 1 1 = Inr [[1, 2]]"
  by (simp add: divergence_buffer_def tile_grid_example_2 process_tile_example_0
      process_tile_example_1 eval_nat_numeral)

text \<open>
  Claim C8. For every configuration with a positive \<open>max_iter\<close>, every cell of the
  Divergence Buffer that the render returns holds a count between 0 and \<open>max_iter - 1\<close>.
\<close>

theorem divergence_counts_bounded:
  assumes "0 < max_iter"
    and "divergence_buffer width height max_iter x_min x_max y_min y_max tile_size = Inr result"
    and "y < length result" and "x < length (result ! y)"
  shows "0 \<le> sint (result ! y ! x) \<and> sint (result ! y ! x) \<le> max_iter - 1"
proof -
  have init: "\<forall>c \<in> set (concat (replicate (nat height) (replicate (nat width) (0 :: int32)))).
      0 \<le> sint c \<and> sint c \<le> max_iter - 1"
    using assms(1) by (auto simp: concat_cell)
  have "process_tiles width height max_iter x_min y_min ((x_max - x_min) / real_of_int width)
      ((y_max - y_min) / real_of_int height) tile_size (tile_grid width height tile_size)
      (replicate (nat height) (replicate (nat width) 0)) = Inr result"
    using divergence_buffer_Inr [OF assms(2)] by simp
  from process_tiles_cells_bounded [OF assms(1) this init]
  have "\<forall>c \<in> set (concat result). 0 \<le> sint c \<and> sint c \<le> max_iter - 1" .
  moreover have "result ! y ! x \<in> set (concat result)"
    unfolding concat_cell using assms(3,4) by blast
  ultimately show ?thesis by (rule bspec)
qed

theorem divergence_counts_bounded_witness:
  "(0 :: int) < 3 \<and> divergence_buffer 2 1 3 (-3) 3 0 1 1 = Inr [[1, 2]] \<and>
   (0 :: nat) < length [[1, 2 :: int32]] \<and> (1 :: nat) < length ([[1, 2 :: int32]] ! 0) \<and>
   0 \<le> sint ([[1, 2 :: int32]] ! 0 ! 1) \<and> sint ([[1, 2 :: int32]] ! 0 ! 1) \<le> 3 - 1"
  using divergence_counts_bounded [of 3 2 1 "-3" 3 0 1 1 "[[1, 2]]" 0 1] divergence_buffer_example
  by simp

section \<open>The buffer does not depend on the tile size\<close>

text \<open>
  One pass of the tile loop, for a tile of the grid: the pixels of the tile receive their
  counts, the others keep their value.
\<close>

lemma tile_bounds_valid:
  assumes "0 < tile_size" "(ty, tx) \<in> set (tile_grid width height tile_size)"
    "tile_bounds width height tile_size tx ty = (x_start, x_end, y_start, y_end)"
  shows "0 \<le> x_start \<and> x_start < x_end \<and> x_end \<le> width \<and>
         0 \<le> y_start \<and> y_start < y_end \<and> y_end \<le> height"
proof -
  from assms(2) have t: "0 \<le> tx" "0 \<le> ty" "tx * tile_size < width" "ty * tile_size < height"
    using tile_index_less_iff [OF assms(1)] by (simp_all add: set_tile_grid)
  then have "0 \<le> tx * tile_size" "0 \<le> ty * tile_size" using assms(1) by simp_all
  with t assms(1,3) show ?thesis by (auto simp: tile_bounds_def Let_def)
qed

lemma in_tile_bounds:
  assumes "tile_bounds width height tile_size tx ty = (x_start, x_end, y_start, y_end)"
  shows "in_tile width height tile_size (ty, tx) x y \<longleftrightarrow>
         x_start \<le> x \<and> x < x_end \<and> y_start \<le> y \<and> y < y_end"
  using assms by (simp add: in_tile_def)

lemma process_tile_valid:
  assumes ts: "0 < tile_size" and grid: "(ty, tx) \<in> set (tile_grid width height tile_size)"
    and res: "rect (nat height) (nat width) result"
  shows "process_tile width height max_iter x_min y_min x_scale y_scale tile_size result (ty, tx) =
    (if \<forall>x y. in_tile width height tile_size (ty, tx) x y \<longrightarrow>
          fits_int32 (pixel_count max_iter x_min y_min x_scale y_scale x y)
     then Inr (map (\<lambda>y. map (\<lambda>x. if in_tile width height tile_size (ty, tx) (int x) (int y)
                     then word_of_int (pixel_count max_iter x_min y_min x_scale y_scale (int x) (int y))
                     else result ! y ! x) [0..<nat width]) [0..<nat height])
     else Inl OverflowError)"
proof -
  obtain x_start x_end y_start y_end where
    b: "tile_bounds width height tile_size tx ty = (x_start, x_end, y_start, y_end)"
    by (cases "tile_bounds width height tile_size tx ty")
  obtain X_tile Y_tile where
    c: "tile_coords x_min y_min x_scale y_scale (x_start, x_end, y_start, y_end) = (X_tile, Y_tile)"
    by (cases "tile_coords x_min y_min x_scale y_scale (x_start, x_end, y_start, y_end)")
  note v = tile_bounds_valid [OF ts grid b]
  note it = in_tile_bounds [OF b]
  define th where "th = nat (y_end - y_start)"
  define tw where "tw = nat (x_end - x_start)"
  let ?pc = "pixel_count max_iter x_min y_min x_scale y_scale"
  have rX: "rect th tw X_tile" and rY: "rect th tw Y_tile"
    using tile_coords_rect [OF c] by (simp_all add: th_def tw_def)
  have cnt: "escape_count (X_tile ! i ! j) (Y_tile ! i ! j) max_iter =
      ?pc (x_start + int j) (y_start + int i)" if "i < th" "j < tw" for i j
    using tile_coords_nth [OF c, of i j] that by (simp add: th_def tw_def pixel_count_def)
  have cond: "(\<forall>i < th. \<forall>j < tw. fits_int32 (escape_count (X_tile ! i ! j) (Y_tile ! i ! j) max_iter))
      \<longleftrightarrow> (\<forall>x y. in_tile width height tile_size (ty, tx) x y \<longrightarrow> fits_int32 (?pc x y))"
  proof
    assume a: "\<forall>i < th. \<forall>j < tw. fits_int32 (escape_count (X_tile ! i ! j) (Y_tile ! i ! j) max_iter)"
    show "\<forall>x y. in_tile width height tile_size (ty, tx) x y \<longrightarrow> fits_int32 (?pc x y)"
    proof (intro allI impI)
      fix x y assume "in_tile width height tile_size (ty, tx) x y"
      then have xy: "x_start \<le> x" "x < x_end" "y_start \<le> y" "y < y_end" by (simp_all add: it)
      then have lt: "nat (y - y_start) < th" "nat (x - x_start) < tw"
        by (simp_all add: th_def tw_def)
      have "escape_count (X_tile ! nat (y - y_start) ! nat (x - x_start))
          (Y_tile ! nat (y - y_start) ! nat (x - x_start)) max_iter = ?pc x y"
        using cnt [OF lt] xy by simp
      moreover have "fits_int32 (escape_count (X_tile ! nat (y - y_start) ! nat (x - x_start))
          (Y_tile ! nat (y - y_start) ! nat (x - x_start)) max_iter)"
        using a lt by blast
      ultimately show "fits_int32 (?pc x y)" by simp
    qed
  next
    assume a: "\<forall>x y. in_tile width height tile_size (ty, tx) x y \<longrightarrow> fits_int32 (?pc x y)"
    show "\<forall>i < th. \<forall>j < tw. fits_int32 (escape_count (X_tile ! i ! j) (Y_tile ! i ! j) max_iter)"
    proof (intro allI impI)
      fix i j assume ij: "i < th" "j < tw"
      then have "in_tile width height tile_size (ty, tx) (x_start + int j) (y_start + int i)"
        by (simp add: it th_def tw_def) linarith
      with a cnt [OF ij] show "fits_int32 (escape_count (X_tile ! i ! j) (Y_tile ! i ! j) max_iter)"
        by simp
    qed
  qed
  define D where "D = map (\<lambda>i. map (\<lambda>j. word_of_int
      (escape_count (X_tile ! i ! j) (Y_tile ! i ! j) max_iter) :: int32) [0..<tw]) [0..<th]"
  have mt: "mandelbrot_tile X_tile Y_tile max_iter =
      (if \<forall>i < th. \<forall>j < tw. fits_int32 (escape_count (X_tile ! i ! j) (Y_tile ! i ! j) max_iter)
       then Inr D else Inl OverflowError)"
    unfolding D_def by (rule mandelbrot_tile_rect [OF rX rY])
  have pt: "process_tile width height max_iter x_min y_min x_scale y_scale tile_size result (ty, tx) =
      (case mandelbrot_tile X_tile Y_tile max_iter of
         Inl e \<Rightarrow> Inl e
       | Inr tile_result \<Rightarrow> assign_block result y_start y_end x_start x_end tile_result)"
    by (simp add: process_tile_def b c)
  show ?thesis
  proof (cases "\<forall>x y. in_tile width height tile_size (ty, tx) x y \<longrightarrow> fits_int32 (?pc x y)")
    case False
    then have "\<not> (\<forall>i < th. \<forall>j < tw.
        fits_int32 (escape_count (X_tile ! i ! j) (Y_tile ! i ! j) max_iter))"
      unfolding cond .
    then have "mandelbrot_tile X_tile Y_tile max_iter = Inl OverflowError"
      by (simp only: mt if_False)
    then have "process_tile width height max_iter x_min y_min x_scale y_scale tile_size result
        (ty, tx) = Inl OverflowError"
      by (simp add: pt)
    then show ?thesis by (simp only: if_not_P [OF False])
  next
    case True
    then have allfit: "\<forall>i < th. \<forall>j < tw.
        fits_int32 (escape_count (X_tile ! i ! j) (Y_tile ! i ! j) max_iter)"
      unfolding cond .
    have mD: "mandelbrot_tile X_tile Y_tile max_iter = Inr D"
      by (simp only: mt if_P [OF allfit])
    define y0 where "y0 = nat y_start"
    define y1 where "y1 = nat y_end"
    define x0 where "x0 = nat x_start"
    define x1 where "x1 = nat x_end"
    have n: "y_start = int y0" "y_end = int y1" "x_start = int x0" "x_end = int x1"
      using v by (auto simp: y0_def y1_def x0_def x1_def)
    have o: "y0 \<le> y1" "y1 \<le> nat height" "x0 \<le> x1" "x1 \<le> nat width"
      using v by (auto simp: y0_def y1_def x0_def x1_def)
    have d: "y1 - y0 = th" "x1 - x0 = tw"
      using v by (auto simp: y0_def y1_def x0_def x1_def th_def tw_def)
    have h: "0 < nat height" using v by simp
    have rD: "rect (y1 - y0) (x1 - x0) D" unfolding d D_def by (rule rect_map)
    have cell: "(if y0 \<le> y \<and> y < y1 \<and> x0 \<le> x \<and> x < x1 then D ! (y - y0) ! (x - x0) else result ! y ! x) =
        (if in_tile width height tile_size (ty, tx) (int x) (int y)
         then word_of_int (?pc (int x) (int y)) else result ! y ! x)" for x y
    proof (cases "y0 \<le> y \<and> y < y1 \<and> x0 \<le> x \<and> x < x1")
      case inside: True
      then have lt: "y - y0 < th" "x - x0 < tw" using d by linarith+
      have "x_start + int (x - x0) = int x" "y_start + int (y - y0) = int y"
        using inside n by simp_all
      then have "D ! (y - y0) ! (x - x0) = word_of_int (?pc (int x) (int y))"
        using lt cnt [OF lt] by (simp add: D_def)
      moreover have "in_tile width height tile_size (ty, tx) (int x) (int y)"
        using inside by (simp add: it n)
      ultimately show ?thesis by (simp only: if_P [OF inside] if_True)
    next
      case outside: False
      then have "\<not> in_tile width height tile_size (ty, tx) (int x) (int y)"
        by (simp add: it n) linarith
      then show ?thesis by (simp only: if_not_P [OF outside] if_False)
    qed
    have "process_tile width height max_iter x_min y_min x_scale y_scale tile_size result (ty, tx) =
        assign_block result (int y0) (int y1) (int x0) (int x1) D"
      using pt mD by (simp add: n)
    also have "\<dots> = Inr (map (\<lambda>y. map (\<lambda>x. if y0 \<le> y \<and> y < y1 \<and> x0 \<le> x \<and> x < x1
                               then D ! (y - y0) ! (x - x0) else result ! y ! x) [0..<nat width])
              [0..<nat height])"
      by (rule assign_block_valid [OF res h o rD])
    finally have "process_tile width height max_iter x_min y_min x_scale y_scale tile_size result
        (ty, tx) =
      Inr (map (\<lambda>y. map (\<lambda>x. if in_tile width height tile_size (ty, tx) (int x) (int y)
                     then word_of_int (?pc (int x) (int y))
                     else result ! y ! x) [0..<nat width]) [0..<nat height])"
      by (simp only: cell)
    then show ?thesis by (simp only: if_P [OF True])
  qed
qed

text \<open>The same for the tiles visited so far, by induction along the loop.\<close>

lemma process_tiles_valid:
  assumes ts: "0 < tile_size"
  shows "set tiles \<subseteq> set (tile_grid width height tile_size) \<Longrightarrow>
    rect (nat height) (nat width) result \<Longrightarrow>
    process_tiles width height max_iter x_min y_min x_scale y_scale tile_size tiles result =
    (if \<forall>t \<in> set tiles. \<forall>x y. in_tile width height tile_size t x y \<longrightarrow>
          fits_int32 (pixel_count max_iter x_min y_min x_scale y_scale x y)
     then Inr (map (\<lambda>y. map (\<lambda>x. if \<exists>t \<in> set tiles. in_tile width height tile_size t (int x) (int y)
                     then word_of_int (pixel_count max_iter x_min y_min x_scale y_scale (int x) (int y))
                     else result ! y ! x) [0..<nat width]) [0..<nat height])
     else Inl OverflowError)"
proof (induction tiles arbitrary: result)
  case Nil
  then show ?case by (simp add: rect_map_nth)
next
  case (Cons t tiles)
  let ?pc = "pixel_count max_iter x_min y_min x_scale y_scale"
  let ?fit = "\<lambda>t. \<forall>x y. in_tile width height tile_size t x y \<longrightarrow> fits_int32 (?pc x y)"
  obtain ty tx where t: "t = (ty, tx)" by (cases t)
  from Cons.prems(1) have g: "(ty, tx) \<in> set (tile_grid width height tile_size)"
    and sub: "set tiles \<subseteq> set (tile_grid width height tile_size)" by (simp_all add: t)
  note step = process_tile_valid [OF ts g Cons.prems(2), of max_iter x_min y_min x_scale y_scale]
  show ?case
  proof (cases "?fit t")
    case False
    have F: "\<not> ?fit (ty, tx)" using False unfolding t .
    have s: "process_tile width height max_iter x_min y_min x_scale y_scale tile_size result t =
        Inl OverflowError"
      unfolding t using step [unfolded if_not_P [OF F]] .
    have nb: "\<not> (\<forall>t' \<in> set (t # tiles). ?fit t')" using False by simp
    have "process_tiles width height max_iter x_min y_min x_scale y_scale tile_size
        (t # tiles) result = Inl OverflowError"
      by (simp add: s)
    then show ?thesis unfolding if_not_P [OF nb] .
  next
    case True
    have T: "?fit (ty, tx)" using True unfolding t .
    define r1 where "r1 = map (\<lambda>y. map (\<lambda>x. if in_tile width height tile_size (ty, tx) (int x) (int y)
                     then word_of_int (?pc (int x) (int y))
                     else result ! y ! x) [0..<nat width]) [0..<nat height]"
    have s1: "process_tile width height max_iter x_min y_min x_scale y_scale tile_size result t =
        Inr r1"
      unfolding t r1_def using step [unfolded if_P [OF T]] .
    have r1: "rect (nat height) (nat width) r1" unfolding r1_def by (rule rect_map)
    note ih = Cons.IH [OF sub r1]
    have unf: "process_tiles width height max_iter x_min y_min x_scale y_scale tile_size
        (t # tiles) result =
        process_tiles width height max_iter x_min y_min x_scale y_scale tile_size tiles r1"
      by (simp add: s1)
    show ?thesis
    proof (cases "\<forall>t' \<in> set tiles. ?fit t'")
      case rest_bad: False
      have nb: "\<not> (\<forall>t' \<in> set (t # tiles). ?fit t')" using rest_bad by simp
      have "process_tiles width height max_iter x_min y_min x_scale y_scale tile_size tiles r1
          = Inl OverflowError"
        using ih [unfolded if_not_P [OF rest_bad]] .
      then show ?thesis unfolding if_not_P [OF nb] unf .
    next
      case rest_ok: True
      have all: "\<forall>t' \<in> set (t # tiles). ?fit t'" using True rest_ok by simp
      have cellwise: "map (\<lambda>y. map (\<lambda>x. if \<exists>t \<in> set tiles. in_tile width height tile_size t (int x) (int y)
                     then word_of_int (?pc (int x) (int y))
                     else r1 ! y ! x) [0..<nat width]) [0..<nat height] =
          map (\<lambda>y. map (\<lambda>x. if \<exists>t' \<in> set (t # tiles). in_tile width height tile_size t' (int x) (int y)
                     then word_of_int (?pc (int x) (int y))
                     else result ! y ! x) [0..<nat width]) [0..<nat height]"
      proof (rule map_cong [OF refl], rule map_cong [OF refl])
        fix y x assume "y \<in> set [0..<nat height]" "x \<in> set [0..<nat width]"
        then have "r1 ! y ! x = (if in_tile width height tile_size t (int x) (int y)
            then word_of_int (?pc (int x) (int y)) else result ! y ! x)"
          by (simp add: r1_def t)
        then show "(if \<exists>t \<in> set tiles. in_tile width height tile_size t (int x) (int y)
              then word_of_int (?pc (int x) (int y)) else r1 ! y ! x) =
            (if \<exists>t' \<in> set (t # tiles). in_tile width height tile_size t' (int x) (int y)
              then word_of_int (?pc (int x) (int y)) else result ! y ! x)"
          by auto
      qed
      have "process_tiles width height max_iter x_min y_min x_scale y_scale tile_size tiles r1 =
          Inr (map (\<lambda>y. map (\<lambda>x. if \<exists>t' \<in> set (t # tiles). in_tile width height tile_size t' (int x) (int y)
                     then word_of_int (?pc (int x) (int y))
                     else result ! y ! x) [0..<nat width]) [0..<nat height])"
        using ih [unfolded if_P [OF rest_ok]] unfolding cellwise .
      then show ?thesis unfolding if_P [OF all] unf .
    qed
  qed
qed

lemma grid_fits_iff:
  assumes "0 < tile_size"
  shows "(\<forall>t \<in> set (tile_grid width height tile_size). \<forall>x y.
            in_tile width height tile_size t x y \<longrightarrow> P x y) \<longleftrightarrow>
         (\<forall>x y. 0 \<le> x \<and> x < width \<and> 0 \<le> y \<and> y < height \<longrightarrow> P x y)"
proof
  assume a: "\<forall>t \<in> set (tile_grid width height tile_size). \<forall>x y.
            in_tile width height tile_size t x y \<longrightarrow> P x y"
  show "\<forall>x y. 0 \<le> x \<and> x < width \<and> 0 \<le> y \<and> y < height \<longrightarrow> P x y"
  proof (intro allI impI)
    fix x y assume "0 \<le> x \<and> x < width \<and> 0 \<le> y \<and> y < height"
    then have "(y div tile_size, x div tile_size) \<in> set (tile_grid width height tile_size) \<and>
        in_tile width height tile_size (y div tile_size, x div tile_size) x y"
      using pixel_tile [OF assms, of x width y height] by simp
    with a show "P x y" by blast
  qed
next
  assume a: "\<forall>x y. 0 \<le> x \<and> x < width \<and> 0 \<le> y \<and> y < height \<longrightarrow> P x y"
  show "\<forall>t \<in> set (tile_grid width height tile_size). \<forall>x y.
            in_tile width height tile_size t x y \<longrightarrow> P x y"
    using in_tile_raster [OF assms] a by blast
qed

lemma divergence_buffer_valid:
  assumes "0 < width" "0 < height" "0 < tile_size"
  shows "divergence_buffer width height max_iter x_min x_max y_min y_max tile_size =
    (if \<forall>x y. 0 \<le> x \<and> x < width \<and> 0 \<le> y \<and> y < height \<longrightarrow>
          fits_int32 (pixel_count max_iter x_min y_min ((x_max - x_min) / real_of_int width)
            ((y_max - y_min) / real_of_int height) x y)
     then Inr (map (\<lambda>y. map (\<lambda>x. word_of_int
            (pixel_count max_iter x_min y_min ((x_max - x_min) / real_of_int width)
               ((y_max - y_min) / real_of_int height) (int x) (int y)))
          [0..<nat width]) [0..<nat height])
     else Inl OverflowError)"
proof -
  let ?xs = "(x_max - x_min) / real_of_int width"
  let ?ys = "(y_max - y_min) / real_of_int height"
  let ?pc = "pixel_count max_iter x_min y_min ?xs ?ys"
  let ?zero = "replicate (nat height) (replicate (nat width) (0 :: int32))"
  have d: "divergence_buffer width height max_iter x_min x_max y_min y_max tile_size =
      process_tiles width height max_iter x_min y_min ?xs ?ys tile_size
        (tile_grid width height tile_size) ?zero"
    using assms by (simp add: divergence_buffer_def)
  have cov: "\<exists>t \<in> set (tile_grid width height tile_size).
      in_tile width height tile_size t (int x) (int y)"
    if "y \<in> set [0..<nat height]" "x \<in> set [0..<nat width]" for x y
  proof -
    from that have "int x < width" "int y < height" by simp_all
    with pixel_tile [OF assms(3), of "int x" width "int y" height] show ?thesis by auto
  qed
  have m: "map (\<lambda>y. map (\<lambda>x. if \<exists>t \<in> set (tile_grid width height tile_size).
                         in_tile width height tile_size t (int x) (int y)
                     then word_of_int (?pc (int x) (int y))
                     else ?zero ! y ! x) [0..<nat width]) [0..<nat height] =
      map (\<lambda>y. map (\<lambda>x. word_of_int (?pc (int x) (int y))) [0..<nat width]) [0..<nat height]"
    by (rule map_cong [OF refl], rule map_cong [OF refl]) (simp only: cov if_True)
  note p = process_tiles_valid [OF assms(3) subset_refl rect_replicate,
      of width height max_iter x_min y_min ?xs ?ys 0]
  show ?thesis
    unfolding d using p unfolding grid_fits_iff [OF assms(3)] m .
qed

lemma divergence_buffer_returns:
  assumes "0 < width" "0 < height" "0 < tile_size" "- (2 ^ 31) < max_iter" "max_iter \<le> 2 ^ 31"
  shows "divergence_buffer width height max_iter x_min x_max y_min y_max tile_size =
     Inr (map (\<lambda>y. map (\<lambda>x. word_of_int
            (pixel_count max_iter x_min y_min ((x_max - x_min) / real_of_int width)
               ((y_max - y_min) / real_of_int height) (int x) (int y)))
          [0..<nat width]) [0..<nat height])"
  using divergence_buffer_valid [OF assms(1-3)] escape_count_fits [OF assms(4,5)]
  by (simp add: pixel_count_def)

lemma single_tile:
  fixes w m :: int
  assumes "0 < w" "w \<le> m"
  shows "(w + m - 1) div m = 1"
proof -
  have "w + m - 1 = m * 1 + (w - 1)" by simp
  from int_div_pos_eq [OF this] assms show ?thesis by simp
qed

lemma tile_grid_single:
  assumes "0 < width" "0 < height"
  shows "tile_grid width height (max width height) = [(0, 0)]"
proof -
  have "(width + max width height - 1) div max width height = 1"
    "(height + max width height - 1) div max width height = 1"
    using assms by (simp_all add: single_tile)
  then show ?thesis by (simp add: tile_grid_def py_range_def upto.simps)
qed

text \<open>
  Claim C5. For every positive \<open>width\<close>, \<open>height\<close> and \<open>tile_size\<close>, and every viewport
  and \<open>max_iter\<close>, a tile size of \<open>max width height\<close> makes the tile grid a single tile,
  and the render with \<open>tile_size\<close> gives the same outcome as the render with that single
  tile: the same Divergence Buffer, cell for cell (or the same exception), whether or not
  \<open>tile_size\<close> divides the raster.
\<close>

theorem tile_size_invariance:
  assumes "0 < width" and "0 < height" and "0 < tile_size"
  shows "tile_grid width height (max width height) = [(0, 0)] \<and>
         divergence_buffer width height max_iter x_min x_max y_min y_max tile_size =
         divergence_buffer width height max_iter x_min x_max y_min y_max (max width height)"
proof -
  have "0 < max width height" using assms(1) by simp
  from divergence_buffer_valid [OF assms(1,2) this] divergence_buffer_valid [OF assms]
  show ?thesis using tile_grid_single [OF assms(1,2)] by simp
qed

theorem tile_size_invariance_witness:
  "(0 :: int) < 2 \<and> (0 :: int) < 1 \<and> (0 :: int) < 1 \<and> tile_grid 2 1 (max 2 1) = [(0, 0)] \<and>
   divergence_buffer 2 1 3 (-3) 3 0 1 1 = divergence_buffer 2 1 3 (-3) 3 0 1 (max 2 1) \<and>
   divergence_buffer 2 1 3 (-3) 3 0 1 1 = Inr [[1, 2]]"
  using tile_size_invariance [of 2 1 1 3 "-3" 3 0 1] divergence_buffer_example by simp

section \<open>The colouring\<close>

text \<open>
  The library rewrites \<open>of_int (sint w)\<close> to \<open>signed w\<close>; the statements below keep the
  integer value of a cell visible, so the rule is taken out of the simplifier.
\<close>

declare of_int_sint [simp del]

lemma sint_int32_range: "- (2 ^ 31) \<le> sint (c :: int32) \<and> sint c < 2 ^ 31"
  using sint_ge [of c] sint_lt [of c] by simp

lemma sint_succ_int32:
  "sint (c + 1 :: int32) = (if sint c = 2 ^ 31 - 1 then - (2 ^ 31) else sint c + 1)"
proof -
  have s: "sint (c + 1) = signed_take_bit 31 (sint c + 1)"
    by (simp add: sint_word_ariths)
  show ?thesis
  proof (cases "sint c = 2 ^ 31 - 1")
    case True
    then show ?thesis by (simp add: s)
  next
    case False
    then have "- (2 ^ 31) \<le> sint c + 1" "sint c + 1 < 2 ^ 31"
      using sint_int32_range [of c] by simp_all
    then have "signed_take_bit 31 (sint c + 1) = sint c + 1"
      by (simp add: signed_take_bit_int_eq_self)
    with False s show ?thesis by simp
  qed
qed

lemma sint_succ_nonneg: "0 \<le> sint (c + 1 :: int32) \<Longrightarrow> sint (c + 1) = sint c + 1"
  by (simp add: sint_succ_int32 split: if_splits)

lemma uint8_of_int_mono:
  "0 \<le> a \<Longrightarrow> a \<le> b \<Longrightarrow> b < 256 \<Longrightarrow> (word_of_int a :: uint8) \<le> word_of_int b"
  by (simp add: word_of_int_less_eq_iff take_bit_int_eq_self)

lemma np_uint8_mono:
  assumes "0 \<le> u" "u \<le> v" "v \<le> 255"
  shows "np_uint8 (Finite u) \<le> np_uint8 (Finite v)"
proof -
  have "\<lfloor>u\<rfloor> \<le> \<lfloor>v\<rfloor>" using assms(2) by (rule floor_mono)
  moreover have "0 \<le> \<lfloor>u\<rfloor>" using assms(1) by simp
  moreover have "\<lfloor>v\<rfloor> < 256" using assms(3) by (simp add: floor_less_iff)
  ultimately show ?thesis using assms by (simp add: uint8_of_int_mono)
qed

subsection \<open>The maximum\<close>

lemma fmax_choice: "fmax x y = x \<or> fmax x y = y"
  by (cases x; cases y) (simp_all add: max_def)

lemma fold_fmax_mem: "fold fmax xs x \<in> set (x # xs)"
proof (induction xs arbitrary: x)
  case Nil
  show ?case by simp
next
  case (Cons y ys)
  from Cons [of "fmax y x"] fmax_choice [of y x] show ?case by auto
qed

lemma fmax_Finite_D:
  assumes "fmax x y = Finite m"
  shows "(x = NegInf \<or> (\<exists>a. x = Finite a \<and> a \<le> m)) \<and> (y = NegInf \<or> (\<exists>a. y = Finite a \<and> a \<le> m))"
  using assms by (cases x; cases y) auto

lemma fmax_NegInf_D: "fmax x y = NegInf \<Longrightarrow> x = NegInf \<and> y = NegInf"
  by (cases x; cases y) auto

lemma fold_fmax_Finite:
  assumes "fold fmax xs x = Finite m" "v \<in> set (x # xs)"
  shows "v = NegInf \<or> (\<exists>a. v = Finite a \<and> a \<le> m)"
  using assms
proof (induction xs arbitrary: x v)
  case Nil
  then show ?case by simp
next
  case (Cons y ys)
  from Cons.prems(1) have f: "fold fmax ys (fmax y x) = Finite m" by simp
  have acc: "fmax y x = NegInf \<or> (\<exists>a. fmax y x = Finite a \<and> a \<le> m)"
    by (rule Cons.IH [OF f]) simp
  show ?case
  proof (cases "v \<in> set ys")
    case True
    then show ?thesis using Cons.IH [OF f] by simp
  next
    case False
    with Cons.prems(2) have v: "v = x \<or> v = y" by auto
    from acc show ?thesis
    proof
      assume "fmax y x = NegInf"
      from fmax_NegInf_D [OF this] v show ?thesis by auto
    next
      assume "\<exists>a. fmax y x = Finite a \<and> a \<le> m"
      then obtain a where a: "fmax y x = Finite a" "a \<le> m" by blast
      from fmax_Finite_D [OF a(1)] v a(2) show ?thesis by auto
    qed
  qed
qed

lemma np_max_Nil: "concat a = [] \<Longrightarrow> np_max a = Inl ValueError"
  by (simp only: np_max_def list.case)

lemma np_max_Cons: "concat a = x # xs \<Longrightarrow> np_max a = Inr (fold fmax xs x)"
  by (simp only: np_max_def list.case)

lemma np_max_Inr_D:
  assumes "np_max a = Inr m"
  obtains x xs where "concat a = x # xs" and "m = fold fmax xs x"
proof (cases "concat a")
  case Nil
  from np_max_Nil [OF this] assms show ?thesis by simp
next
  case (Cons x xs)
  from np_max_Cons [OF this] assms that [OF Cons] show ?thesis by simp
qed

lemma np_max_mem:
  assumes "np_max a = Inr m"
  shows "m \<in> set (concat a)"
proof -
  from assms obtain x xs where c: "concat a = x # xs" and m: "m = fold fmax xs x"
    by (rule np_max_Inr_D)
  from fold_fmax_mem [of xs x] show ?thesis by (simp only: c m)
qed

lemma np_max_Finite:
  assumes "np_max a = Inr (Finite m)" "v \<in> set (concat a)"
  shows "v = NegInf \<or> (\<exists>x. v = Finite x \<and> x \<le> m)"
proof -
  from assms(1) obtain x xs where c: "concat a = x # xs" and m: "Finite m = fold fmax xs x"
    by (rule np_max_Inr_D)
  from assms(2) have "v \<in> set (x # xs)" by (simp only: c)
  from fold_fmax_Finite [OF m [symmetric] this] show ?thesis .
qed

subsection \<open>The logarithms\<close>

lemma np_log_Finite: "np_log n = Finite a \<longleftrightarrow> 0 < n \<and> a = ln (real_of_int n)"
  by (auto simp: np_log_def)

lemma np_log_NegInf: "np_log n = NegInf \<longleftrightarrow> n = 0"
  by (simp add: np_log_def)

lemma np_log_NaN: "np_log n = NaN \<longleftrightarrow> n < 0"
  by (simp add: np_log_def)

lemma np_log_not_PosInf: "np_log n \<noteq> PosInf"
  by (simp add: np_log_def)

lemma np_log_nonneg: "np_log n = Finite a \<Longrightarrow> 0 \<le> a"
  by (auto simp: np_log_Finite)

lemma log_buffer_cells:
  "set (concat (log_buffer result)) = (\<lambda>c. np_log (sint (c + 1))) ` set (concat result)"
  by (auto simp: log_buffer_def)

lemma log_buffer_cell:
  assumes "i < length result" "j < length (result ! i)"
  shows "np_log (sint (result ! i ! j + 1)) \<in> set (concat (log_buffer result))"
proof -
  have "result ! i ! j \<in> set (concat result)" unfolding concat_cell using assms by blast
  then show ?thesis unfolding log_buffer_cells by (rule imageI)
qed

text \<open>The maximum is the logarithm of a cell, so a finite maximum is not negative.\<close>

lemma np_max_log_nonneg:
  assumes "np_max (log_buffer result) = Inr (Finite m)"
  shows "0 \<le> m"
proof -
  from np_max_mem [OF assms] obtain c :: int32 where "Finite m = np_log (sint (c + 1))"
    unfolding log_buffer_cells by blast
  then show ?thesis using np_log_nonneg [of "sint (c + 1)" m] by simp
qed

subsection \<open>The image\<close>

lemma post_process_unfold:
  "post_process result =
     (case np_max (log_buffer result) of
        Inl e \<Rightarrow> Inl e
      | Inr m \<Rightarrow> Inr (map (map (\<lambda>c. np_uint8 (np_times_255 (np_divide (np_log (sint (c + 1))) m))))
                    result))"
  by (simp add: post_process_def log_buffer_def Let_def comp_def split: sum.splits)

lemma post_process_Inr:
  assumes "post_process result = Inr img"
  obtains m where "np_max (log_buffer result) = Inr m"
    and "img = map (map (\<lambda>c. np_uint8 (np_times_255 (np_divide (np_log (sint (c + 1))) m)))) result"
  using assms unfolding post_process_unfold by (cases "np_max (log_buffer result)") auto

lemma post_process_empty: "concat result = [] \<Longrightarrow> post_process result = Inl ValueError"
proof -
  assume "concat result = []"
  then have "concat (log_buffer result) = []" by (simp add: log_buffer_def)
  from np_max_Nil [OF this] show ?thesis by (simp add: post_process_unfold)
qed

lemma post_process_returns:
  assumes "concat result \<noteq> []"
  shows "\<exists>img. post_process result = Inr img"
proof -
  from assms have "concat (log_buffer result) \<noteq> []" by (simp add: log_buffer_def)
  then obtain x xs where "concat (log_buffer result) = x # xs"
    by (cases "concat (log_buffer result)") simp_all
  from np_max_Cons [OF this] show ?thesis by (simp add: post_process_unfold)
qed

lemma post_process_nth:
  assumes "post_process result = Inr img" "np_max (log_buffer result) = Inr m"
    "i < length result" "j < length (result ! i)"
  shows "img ! i ! j = np_uint8 (np_times_255 (np_divide (np_log (sint (result ! i ! j + 1))) m))"
  using assms by (auto simp: post_process_unfold)

text \<open>Where the maximum is not finite, or is 0, every cell is converted from a float that is not finite.\<close>

lemma intensity_nonfinite_max:
  "m = NaN \<or> m = PosInf \<or> m = NegInf \<Longrightarrow> np_uint8 (np_times_255 (np_divide v m)) = 0"
  by (cases v; cases m) simp_all

lemma intensity_zero_max: "np_uint8 (np_times_255 (np_divide v (Finite 0))) = 0"
  by (cases v) simp_all

lemma intensity_NegInf: "np_uint8 (np_times_255 (np_divide NegInf m)) = 0"
  by (cases m) simp_all

lemma intensity_NaN: "np_uint8 (np_times_255 (np_divide NaN m)) = 0"
  by simp

lemma intensity_Finite:
  "m \<noteq> 0 \<Longrightarrow> np_times_255 (np_divide (Finite a) (Finite m)) = Finite (a / m * 255)"
  by simp

lemma intensity_range_nonfinite:
  "m = PosInf \<or> m = NegInf \<or> m = NaN \<Longrightarrow> v \<noteq> PosInf \<Longrightarrow>
   np_times_255 (np_divide v m) \<noteq> PosInf \<and>
   (\<forall>u. np_times_255 (np_divide v m) = Finite u \<longrightarrow> 0 \<le> u \<and> u \<le> 255)"
  by (cases v; cases m) auto

text \<open>
  The floats that are converted: never plus infinity, and a finite one lies between 0
  and 255.
\<close>

lemma post_process_range:
  assumes "np_max (log_buffer result) = Inr m" "v \<in> set (concat (log_buffer result))"
  shows "np_times_255 (np_divide v m) \<noteq> PosInf \<and>
         (\<forall>u. np_times_255 (np_divide v m) = Finite u \<longrightarrow> 0 \<le> u \<and> u \<le> 255)"
proof -
  from assms(2) obtain c :: int32 where v: "v = np_log (sint (c + 1))"
    unfolding log_buffer_cells by blast
  then have vp: "v \<noteq> PosInf" by (simp add: np_log_not_PosInf)
  show ?thesis
  proof (cases m)
    case (Finite M)
    with assms(1) have M: "0 \<le> M" using np_max_log_nonneg by simp
    from np_max_Finite [OF assms(1) [unfolded Finite] assms(2)]
    show ?thesis
    proof
      assume "v = NegInf"
      then show ?thesis using Finite M by simp
    next
      assume "\<exists>x. v = Finite x \<and> x \<le> M"
      then obtain a where a: "v = Finite a" "a \<le> M" by blast
      with v have a0: "0 \<le> a" using np_log_nonneg [of "sint (c + 1)" a] by simp
      show ?thesis
      proof (cases "M = 0")
        case True
        with a a0 have "a = 0" by simp
        then show ?thesis using a True Finite by simp
      next
        case False
        with M have "0 < M" by simp
        then show ?thesis using a a0 Finite by (simp add: divide_le_eq)
      qed
    qed
  next
    case PosInf
    then show ?thesis using intensity_range_nonfinite [OF _ vp, of m] by auto
  next
    case NegInf
    then show ?thesis using intensity_range_nonfinite [OF _ vp, of m] by auto
  next
    case NaN
    then show ?thesis using intensity_range_nonfinite [OF _ vp, of m] by auto
  qed
qed

lemma np_uint8_255: "np_uint8 (Finite 255) = 255"
  by simp

lemma post_process_example: "post_process [[0, 1]] = Inr [[0, 255]]"
proof -
  have l: "log_buffer [[0, 1]] = [[Finite 0, Finite (ln 2)]]" by (simp add: log_buffer_def np_log_def)
  have "(0 :: real) < ln 2" by simp
  then have m: "np_max [[Finite 0, Finite (ln 2)]] = Inr (Finite (ln 2))" by (simp add: np_max_def)
  have ne: "ln (2 :: real) \<noteq> 0" by simp
  show ?thesis by (simp add: post_process_def l m ne)
qed

lemma post_process_one: "post_process [[1]] = Inr [[255]]"
proof -
  have l: "log_buffer [[1]] = [[Finite (ln 2)]]" by (simp add: log_buffer_def np_log_def)
  have m: "np_max [[Finite (ln 2)]] = Inr (Finite (ln 2))" by (simp add: np_max_def)
  have ne: "ln (2 :: real) \<noteq> 0" by simp
  show ?thesis by (simp add: post_process_def l m ne)
qed

text \<open>
  Buffers on which the colouring meets floats that are not finite: a single count of 0
  (0 divided by 0), a cell \<open>-1\<close> (the logarithm of 0), the largest cell, where
  \<^verbatim>\<open>result + 1\<close> wraps to a negative number (the logarithm is NaN), and a mixture. No
  exception is raised; the image is returned, with the intensity 0 in these cells.
\<close>

lemma post_process_zero: "post_process [[0]] = Inr [[0]]"
  by (simp add: post_process_def log_buffer_def np_log_def np_max_def)

lemma post_process_minus_one: "post_process [[- 1]] = Inr [[0]]"
  by (simp add: post_process_def log_buffer_def np_log_def np_max_def)

lemma post_process_wrap: "post_process [[word_of_int (2 ^ 31 - 1)]] = Inr [[0]]"
proof -
  have "sint (word_of_int (2 ^ 31 - 1) + 1 :: int32) = - (2 ^ 31)"
    by (simp add: sint_succ_int32 sint_word_of_int_int32)
  then show ?thesis by (simp add: post_process_def log_buffer_def np_log_def np_max_def)
qed

lemma post_process_mixed: "post_process [[0, - 1, 1, - 2]] = Inr [[0, 0, 0, 0]]"
  by (simp add: post_process_def log_buffer_def np_log_def np_max_def)

text \<open>
  Claim C9. The transform \<open>log (count + 1)\<close>, divided by the global maximum, scaled to
  \<open>0 .. 255\<close> and converted to 8 bits, is monotonic: for two cells of one Divergence Buffer
  whose image the post-processor returns, the cell with the larger or equal count has the
  larger or equal intensity. (Where the maximum of the logarithms is 0 or is not finite,
  every intensity of the image is 0.)
\<close>

theorem post_process_monotonic:
  assumes "post_process result = Inr img"
    and "i < length result" and "j < length (result ! i)"
    and "i' < length result" and "j' < length (result ! i')"
    and "sint (result ! i' ! j') \<le> sint (result ! i ! j)"
  shows "img ! i' ! j' \<le> img ! i ! j"
proof -
  let ?a = "result ! i ! j" and ?b = "result ! i' ! j'"
  let ?la = "np_log (sint (?a + 1))" and ?lb = "np_log (sint (?b + 1))"
  from assms(1) obtain m where m: "np_max (log_buffer result) = Inr m"
    by (rule post_process_Inr)
  have ia: "img ! i ! j = np_uint8 (np_times_255 (np_divide ?la m))"
    by (rule post_process_nth [OF assms(1) m assms(2,3)])
  have ib: "img ! i' ! j' = np_uint8 (np_times_255 (np_divide ?lb m))"
    by (rule post_process_nth [OF assms(1) m assms(4,5)])
  have ca: "?la \<in> set (concat (log_buffer result))" by (rule log_buffer_cell [OF assms(2,3)])
  have cb: "?lb \<in> set (concat (log_buffer result))" by (rule log_buffer_cell [OF assms(4,5)])
  show ?thesis
  proof (cases m)
    case (Finite M)
    note fa = np_max_Finite [OF m [unfolded Finite] ca]
    note fb = np_max_Finite [OF m [unfolded Finite] cb]
    from np_max_log_nonneg [OF m [unfolded Finite]] have M0: "0 \<le> M" .
    show ?thesis
    proof (cases "M = 0")
      case True
      then show ?thesis unfolding ia ib Finite by (simp only: intensity_zero_max)
    next
      case False
      with M0 have Mp: "0 < M" by simp
      from fb show ?thesis
      proof
        assume "?lb = NegInf"
        then show ?thesis unfolding ia ib by (simp only: intensity_NegInf) simp
      next
        assume "\<exists>x. ?lb = Finite x \<and> x \<le> M"
        then obtain y where y: "?lb = Finite y" "y \<le> M" by blast
        then have pb: "0 < sint (?b + 1)" and yl: "y = ln (real_of_int (sint (?b + 1)))"
          by (simp_all add: np_log_Finite)
        from pb have sb: "sint (?b + 1) = sint ?b + 1" by (intro sint_succ_nonneg) simp
        have na: "0 \<le> sint (?a + 1)" using fa by (auto simp: np_log_NegInf np_log_Finite)
        then have sa: "sint (?a + 1) = sint ?a + 1" by (rule sint_succ_nonneg)
        from sa sb pb assms(6) have pa: "0 < sint (?a + 1)" and le: "sint (?b + 1) \<le> sint (?a + 1)"
          by linarith+
        from pa have la: "?la = Finite (ln (real_of_int (sint (?a + 1))))"
          by (simp add: np_log_def)
        with fa have aM: "ln (real_of_int (sint (?a + 1))) \<le> M" by simp
        have yx: "y \<le> ln (real_of_int (sint (?a + 1)))" unfolding yl using pb le by simp
        have y0: "0 \<le> y" unfolding yl using pb by simp
        have "np_uint8 (Finite (y / M * 255)) \<le>
            np_uint8 (Finite (ln (real_of_int (sint (?a + 1))) / M * 255))"
          using Mp y0 yx aM by (intro np_uint8_mono) (simp_all add: divide_right_mono divide_le_eq)
        then show ?thesis
          unfolding ia ib la y Finite intensity_Finite [OF False] .
      qed
    qed
  next
    case PosInf
    then have "m = NaN \<or> m = PosInf \<or> m = NegInf" by simp
    then show ?thesis unfolding ia ib by (simp only: intensity_nonfinite_max)
  next
    case NegInf
    then have "m = NaN \<or> m = PosInf \<or> m = NegInf" by simp
    then show ?thesis unfolding ia ib by (simp only: intensity_nonfinite_max)
  next
    case NaN
    then have "m = NaN \<or> m = PosInf \<or> m = NegInf" by simp
    then show ?thesis unfolding ia ib by (simp only: intensity_nonfinite_max)
  qed
qed

theorem post_process_monotonic_witness:
  "post_process [[0, 1]] = Inr [[0, 255]] \<and>
   (0 :: nat) < length [[0, 1 :: int32]] \<and> (1 :: nat) < length ([[0, 1 :: int32]] ! 0) \<and>
   (0 :: nat) < length ([[0, 1 :: int32]] ! 0) \<and>
   sint ([[0, 1 :: int32]] ! 0 ! 0) \<le> sint ([[0, 1 :: int32]] ! 0 ! 1) \<and>
   [[0, 255 :: uint8]] ! 0 ! 0 \<le> [[0, 255 :: uint8]] ! 0 ! 1"
  using post_process_monotonic [of "[[0, 1]]" "[[0, 255]]" 0 1 0 0] post_process_example
  by simp

section \<open>A viewport inside the set\<close>

text \<open>
  The viewport \<open>x \<in> [-0.6, -0.4]\<close>, \<open>y \<in> [-0.1, 0.1]\<close> inside the main cardioid, rendered
  as one pixel with \<open>max_iter = 2\<close>.
\<close>

lemma cardioid_example_buffer:
  "divergence_buffer 1 1 2 (-0.6) (-0.4) (-0.1) 0.1 1 = Inr [[1]]"
proof -
  have g: "tile_grid 1 1 1 = [(0, 0)]" by (simp add: tile_grid_def py_range_def upto.simps)
  have t: "process_tile 1 1 2 (- (3 / 5)) (- (1 / 10)) (1 / 5) (1 / 5) 1 [[0]] (0, 0) = Inr [[1]]"
    by (simp add: eval_defs)
  show ?thesis by (simp add: divergence_buffer_def g t Let_def)
qed

lemma cardioid_example_render:
  "render_mandelbrot_tiled 1 1 2 (-0.6) (-0.4) (-0.1) 0.1 1 = Inr [[255]]"
  by (simp only: render_mandelbrot_tiled_def cardioid_example_buffer sum.case post_process_one)

text \<open>
  Claim C3 says that a viewport inside the main cardioid gives a buffer that is uniformly
  \<open>max_iter - 1\<close> and an image that is uniformly black. For the viewport above the buffer
  is uniformly \<open>max_iter - 1 = 1\<close>, and the image is uniformly 255, white: the largest
  count of a buffer is mapped to the largest intensity.
\<close>

theorem cardioid_render_counterexample:
  "(0 :: int) < 2 \<and> divergence_buffer 1 1 2 (-0.6) (-0.4) (-0.1) 0.1 1 = Inr [[word_of_int (2 - 1)]] \<and>
   render_mandelbrot_tiled 1 1 2 (-0.6) (-0.4) (-0.1) 0.1 1 = Inr [[255]] \<and> (255 :: uint8) \<noteq> 0"
proof -
  have "(word_of_int (2 - 1) :: int32) = 1" by simp
  then show ?thesis
    by (simp only: cardioid_example_buffer cardioid_example_render) simp
qed

subsection \<open>Points that never escape\<close>

text \<open>
  For \<open>|c| \<le> 1/4\<close> the disc \<open>|z| \<le> 1/2\<close> is mapped into itself by \<open>z \<mapsto> z\<^sup>2 + c\<close>, since
  \<open>|z\<^sup>2 + c| \<le> |z|\<^sup>2 + |c|\<close>; the orbit of 0 stays in it and the escape test, which asks for
  \<open>|z|\<^sup>2 > 4\<close>, never succeeds: the loop runs to its end and records \<open>max_iter - 1\<close>.
\<close>

lemma step_inside:
  fixes cr ci zr zi :: real
  assumes c: "cr * cr + ci * ci \<le> 1 / 16" and z: "zr * zr + zi * zi \<le> 1 / 4"
  shows "(zr * zr - zi * zi + cr) * (zr * zr - zi * zi + cr) +
         (2 * zr * zi + ci) * (2 * zr * zi + ci) \<le> 1 / 4"
proof -
  let ?z = "Complex zr zi" and ?c = "Complex cr ci"
  have sq: "(cmod (Complex a b))\<^sup>2 = a * a + b * b" for a b
  proof -
    have "(cmod (Complex a b))\<^sup>2 = a\<^sup>2 + b\<^sup>2" by (simp add: cmod_power2)
    then show ?thesis by (simp only: power2_eq_square)
  qed
  have "(cmod ?z)\<^sup>2 \<le> (1 / 2)\<^sup>2" unfolding sq using z by (simp add: power2_eq_square)
  then have mz: "cmod ?z \<le> 1 / 2" by (rule power2_le_imp_le) simp
  have "(cmod ?c)\<^sup>2 \<le> (1 / 4)\<^sup>2" unfolding sq using c by (simp add: power2_eq_square)
  then have mc: "cmod ?c \<le> 1 / 4" by (rule power2_le_imp_le) simp
  have "cmod (?z * ?z + ?c) \<le> cmod ?z * cmod ?z + cmod ?c"
    using norm_triangle_ineq [of "?z * ?z" ?c] by (simp only: norm_mult)
  also have "\<dots> \<le> 1 / 2 * (1 / 2) + 1 / 4"
    by (intro add_mono mult_mono mz mc) simp_all
  finally have "cmod (?z * ?z + ?c) \<le> 1 / 2" by simp
  then have "(cmod (?z * ?z + ?c))\<^sup>2 \<le> (1 / 2)\<^sup>2" by (intro power_mono) simp_all
  moreover have "?z * ?z + ?c = Complex (zr * zr - zi * zi + cr) (2 * zr * zi + ci)"
    by (simp add: complex_eq_iff)
  ultimately have "(zr * zr - zi * zi + cr) * (zr * zr - zi * zi + cr) +
         (2 * zr * zi + ci) * (2 * zr * zi + ci) \<le> (1 / 2)\<^sup>2"
    by (simp only: sq)
  then show ?thesis by (simp add: power2_eq_square)
qed

lemma escape_loop_inside:
  "cr * cr + ci * ci \<le> 1 / 16 \<Longrightarrow> zr * zr + zi * zi \<le> 1 / 4 \<Longrightarrow>
   escape_loop cr ci max_iter k zr zi = max_iter - 1"
proof (induction cr ci max_iter k zr zi rule: escape_loop.induct)
  case (1 cr ci max_iter k zr zi)
  show ?case
  proof (cases "k < max_iter")
    case True
    from "1.prems"(2) have ne: "\<not> zr * zr + zi * zi > 4" by simp
    have "escape_loop cr ci max_iter (k + 1) (zr * zr - zi * zi + cr) (2 * zr * zi + ci) =
        max_iter - 1"
      using True ne "1.prems"(1) step_inside [OF "1.prems"]
      by (intro "1.IH" [OF True refl refl]) simp_all
    then show ?thesis using True ne by (simp add: escape_loop.simps [of cr ci max_iter k zr zi])
  next
    case False
    then show ?thesis by (simp add: escape_loop.simps [of cr ci max_iter k zr zi])
  qed
qed

lemma escape_count_inside:
  "cr * cr + ci * ci \<le> 1 / 16 \<Longrightarrow> escape_count cr ci max_iter = max_iter - 1"
  by (simp add: escape_count_def escape_loop_inside)

lemma square_between:
  fixes a b t :: real
  assumes "0 \<le> t" "t \<le> 1"
  shows "(a + t * (b - a)) * (a + t * (b - a)) \<le> max (a * a) (b * b)"
proof -
  let ?m = "max \<bar>a\<bar> \<bar>b\<bar>"
  have "a + t * (b - a) = (1 - t) * a + t * b" by (simp add: algebra_simps)
  then have "\<bar>a + t * (b - a)\<bar> \<le> \<bar>(1 - t) * a\<bar> + \<bar>t * b\<bar>" by (simp add: abs_triangle_ineq)
  also have "\<dots> = (1 - t) * \<bar>a\<bar> + t * \<bar>b\<bar>" using assms by (simp add: abs_mult)
  also have "\<dots> \<le> (1 - t) * ?m + t * ?m"
    using assms by (intro add_mono mult_left_mono) simp_all
  also have "\<dots> = ?m" by (simp add: algebra_simps)
  finally have "\<bar>a + t * (b - a)\<bar> \<le> ?m" .
  then have "\<bar>a + t * (b - a)\<bar> * \<bar>a + t * (b - a)\<bar> \<le> ?m * ?m"
    by (intro mult_mono) simp_all
  moreover have "?m * ?m = max (a * a) (b * b)"
  proof (cases "\<bar>a\<bar> \<le> \<bar>b\<bar>")
    case True
    then have "a * a \<le> b * b" by (simp add: abs_le_square_iff power2_eq_square)
    with True show ?thesis by (simp add: max_def)
  next
    case False
    then have "\<not> a * a \<le> b * b" by (simp add: abs_le_square_iff power2_eq_square)
    with False show ?thesis by (simp add: max_def)
  qed
  ultimately show ?thesis by simp
qed

lemma coordinate_between:
  fixes x n :: int and a b :: real
  assumes "0 \<le> x" "x < n"
  shows "(a + real_of_int x * ((b - a) / real_of_int n)) * (a + real_of_int x * ((b - a) / real_of_int n))
         \<le> max (a * a) (b * b)"
proof -
  let ?t = "real_of_int x / real_of_int n"
  have "0 \<le> ?t" "?t \<le> 1" using assms by simp_all
  from square_between [OF this, of a b] show ?thesis by simp
qed

lemma pixel_count_inside:
  assumes "viewport_in_disc x_min x_max y_min y_max" "0 \<le> x" "x < width" "0 \<le> y" "y < height"
  shows "pixel_count max_iter x_min y_min ((x_max - x_min) / real_of_int width)
           ((y_max - y_min) / real_of_int height) x y = max_iter - 1"
proof -
  from coordinate_between [OF assms(2,3), of x_min x_max]
    coordinate_between [OF assms(4,5), of y_min y_max] assms(1)
  show ?thesis unfolding pixel_count_def viewport_in_disc_def
    by (intro escape_count_inside) linarith
qed

lemma viewport_in_disc_iff:
  assumes "x_min \<le> x_max" "y_min \<le> y_max"
  shows "viewport_in_disc x_min x_max y_min y_max \<longleftrightarrow>
         (\<forall>cr ci. x_min \<le> cr \<and> cr \<le> x_max \<and> y_min \<le> ci \<and> ci \<le> y_max \<longrightarrow>
            cr * cr + ci * ci \<le> 1 / 16)"
proof
  assume v: "viewport_in_disc x_min x_max y_min y_max"
  show "\<forall>cr ci. x_min \<le> cr \<and> cr \<le> x_max \<and> y_min \<le> ci \<and> ci \<le> y_max \<longrightarrow>
            cr * cr + ci * ci \<le> 1 / 16"
  proof (intro allI impI)
    fix cr ci
    assume b: "x_min \<le> cr \<and> cr \<le> x_max \<and> y_min \<le> ci \<and> ci \<le> y_max"
    have between: "u * u \<le> max (a * a) (b * b)" if "a \<le> u" "u \<le> b" for a b u :: real
    proof (cases "a = b")
      case True
      with that show ?thesis by simp
    next
      case False
      with that have ab: "a < b" by simp
      let ?t = "(u - a) / (b - a)"
      have "0 \<le> ?t" "?t \<le> 1" using that ab by simp_all
      from square_between [OF this, of a b] ab show ?thesis by simp
    qed
    from between [of x_min cr x_max] between [of y_min ci y_max] b v
    show "cr * cr + ci * ci \<le> 1 / 16" unfolding viewport_in_disc_def by linarith
  qed
next
  assume a: "\<forall>cr ci. x_min \<le> cr \<and> cr \<le> x_max \<and> y_min \<le> ci \<and> ci \<le> y_max \<longrightarrow>
            cr * cr + ci * ci \<le> 1 / 16"
  from assms a have "x_min * x_min + y_min * y_min \<le> 1 / 16" "x_min * x_min + y_max * y_max \<le> 1 / 16"
    "x_max * x_max + y_min * y_min \<le> 1 / 16" "x_max * x_max + y_max * y_max \<le> 1 / 16"
    by simp_all
  then show "viewport_in_disc x_min x_max y_min y_max"
    unfolding viewport_in_disc_def max_def by (simp split: if_splits)
qed

subsection \<open>A buffer of equal counts\<close>

text \<open>
  In a buffer of equal counts every logarithm is the maximum, and every cell is the
  maximum divided by itself: 1 where the logarithm is positive, and NaN where it is 0,
  that is where the count is 0.
\<close>

lemma fmax_same: "fmax x x = x"
  by (cases x) simp_all

lemma fold_fmax_replicate: "fold fmax (replicate n x) x = x"
  by (induction n) (simp_all add: fmax_same)

lemma concat_replicate_uniform: "concat (replicate h (replicate w x)) = replicate (h * w) x"
  by (induction h) (simp_all add: replicate_add)

lemma np_max_uniform:
  assumes "0 < h" "0 < w"
  shows "np_max (replicate h (replicate w x)) = Inr x"
proof -
  from assms obtain n where n: "h * w = Suc n" by (cases "h * w") simp_all
  have "concat (replicate h (replicate w x)) = x # replicate n x"
    by (simp add: concat_replicate_uniform n)
  from np_max_Cons [OF this] show ?thesis by (simp only: fold_fmax_replicate)
qed

lemma post_process_uniform:
  assumes "0 < h" "0 < w"
  shows "post_process (replicate h (replicate w c)) =
         Inr (replicate h (replicate w
           (np_uint8 (np_times_255 (np_divide (np_log (sint (c + 1))) (np_log (sint (c + 1))))))))"
proof -
  have l: "log_buffer (replicate h (replicate w c)) = replicate h (replicate w (np_log (sint (c + 1))))"
    by (simp add: log_buffer_def)
  show ?thesis
    by (simp add: post_process_unfold l np_max_uniform [OF assms])
qed

lemma intensity_of_maximum:
  assumes "0 < n"
  shows "np_uint8 (np_times_255 (np_divide (np_log n) (np_log n))) = (if n = 1 then 0 else 255)"
proof (cases "n = 1")
  case True
  then show ?thesis by (simp add: np_log_def)
next
  case False
  with assms have "1 < n" by simp
  then have "ln (real_of_int n) \<noteq> 0" by simp
  then show ?thesis using assms False by (simp add: np_log_def)
qed

lemma post_process_all_equal:
  assumes "0 < h" "0 < w" "0 < n" "n < 2 ^ 31"
  shows "post_process (replicate h (replicate w (word_of_int (n - 1)))) =
         Inr (replicate h (replicate w (if n = 1 then 0 else 255)))"
proof -
  have "word_of_int (n - 1) + 1 = (word_of_int n :: int32)" by simp
  moreover have "sint (word_of_int n :: int32) = n"
    using assms(3,4) by (intro sint_word_of_int_int32) simp_all
  ultimately have "sint (word_of_int (n - 1) + 1 :: int32) = n" by (simp only:)
  then show ?thesis
    by (simp only: post_process_uniform [OF assms(1,2)] intensity_of_maximum [OF assms(3)])
qed

lemma divergence_buffer_inside:
  assumes "0 < width" "0 < height" "0 < tile_size" "0 < max_iter" "max_iter < 2 ^ 31"
    and "viewport_in_disc x_min x_max y_min y_max"
  shows "divergence_buffer width height max_iter x_min x_max y_min y_max tile_size =
         Inr (replicate (nat height) (replicate (nat width) (word_of_int (max_iter - 1))))"
proof -
  have "map (\<lambda>y. map (\<lambda>x. word_of_int
            (pixel_count max_iter x_min y_min ((x_max - x_min) / real_of_int width)
               ((y_max - y_min) / real_of_int height) (int x) (int y)) :: int32)
          [0..<nat width]) [0..<nat height] =
        map (\<lambda>y. map (\<lambda>x. word_of_int (max_iter - 1)) [0..<nat width]) [0..<nat height]"
  proof (rule map_cong [OF refl], rule map_cong [OF refl])
    fix y x
    assume "y \<in> set [0..<nat height]" "x \<in> set [0..<nat width]"
    then have "0 \<le> int x" "int x < width" "0 \<le> int y" "int y < height" by simp_all
    from pixel_count_inside [OF assms(6) this]
    show "(word_of_int (pixel_count max_iter x_min y_min ((x_max - x_min) / real_of_int width)
               ((y_max - y_min) / real_of_int height) (int x) (int y)) :: int32) =
          word_of_int (max_iter - 1)"
      by simp
  qed
  moreover have "divergence_buffer width height max_iter x_min x_max y_min y_max tile_size =
     Inr (map (\<lambda>y. map (\<lambda>x. word_of_int
            (pixel_count max_iter x_min y_min ((x_max - x_min) / real_of_int width)
               ((y_max - y_min) / real_of_int height) (int x) (int y)))
          [0..<nat width]) [0..<nat height])"
    using assms(1-5) by (intro divergence_buffer_returns) simp_all
  ultimately show ?thesis by (simp add: map_replicate_const)
qed

text \<open>
  Claim C3, amended. For a raster of positive size, a positive tile size, a positive
  \<open>max_iter < 2\<^sup>3\<^sup>1\<close> and every viewport inside the closed disc \<open>|c| \<le> 1/4\<close>, which lies
  inside the main cardioid, the render produces the Divergence Buffer that is uniformly
  \<open>max_iter - 1\<close>, and the post-processor returns an image that is uniformly white, 255,
  for \<open>max_iter \<ge> 2\<close>: the divisor is \<open>log max_iter\<close>, which is positive. For
  \<open>max_iter = 1\<close> all counts and the divisor are 0; the program has no special case for
  it, it divides 0 by 0, and the NaN it gets is converted to the intensity 0: the image is
  uniformly black.
\<close>

theorem disc_viewport_render:
  assumes "0 < width" and "0 < height" and "0 < tile_size"
    and "0 < max_iter" and "max_iter < 2 ^ 31"
    and "viewport_in_disc x_min x_max y_min y_max"
  shows "divergence_buffer width height max_iter x_min x_max y_min y_max tile_size =
           Inr (replicate (nat height) (replicate (nat width) (word_of_int (max_iter - 1)))) \<and>
         sint (word_of_int (max_iter - 1) :: int32) = max_iter - 1 \<and>
         render_mandelbrot_tiled width height max_iter x_min x_max y_min y_max tile_size =
           Inr (replicate (nat height) (replicate (nat width) (if max_iter = 1 then 0 else 255)))"
proof -
  note b = divergence_buffer_inside [OF assms]
  have s: "sint (word_of_int (max_iter - 1) :: int32) = max_iter - 1"
    using assms(4,5) by (intro sint_word_of_int_int32) simp_all
  have h: "0 < nat height" "0 < nat width" using assms(1,2) by simp_all
  have "render_mandelbrot_tiled width height max_iter x_min x_max y_min y_max tile_size =
      post_process (replicate (nat height) (replicate (nat width) (word_of_int (max_iter - 1))))"
    by (simp only: render_mandelbrot_tiled_def b sum.case)
  with post_process_all_equal [OF h assms(4,5)] b s show ?thesis by simp
qed

theorem disc_viewport_render_witness:
  "(0 :: int) < 2 \<and> (0 :: int) < 1 \<and> (0 :: int) < 3 \<and> (3 :: int) < 2 ^ 31 \<and>
   viewport_in_disc (-0.1) 0.1 (-0.1) 0.1 \<and>
   divergence_buffer 2 2 3 (-0.1) 0.1 (-0.1) 0.1 1 = Inr [[2, 2], [2, 2]] \<and>
   render_mandelbrot_tiled 2 2 3 (-0.1) 0.1 (-0.1) 0.1 1 = Inr [[255, 255], [255, 255]] \<and>
   divergence_buffer 2 2 1 (-0.1) 0.1 (-0.1) 0.1 1 = Inr [[0, 0], [0, 0]] \<and>
   render_mandelbrot_tiled 2 2 1 (-0.1) 0.1 (-0.1) 0.1 1 = Inr [[0, 0], [0, 0]]"
proof -
  have v: "viewport_in_disc (-0.1) 0.1 (-0.1) 0.1" by (simp add: viewport_in_disc_def)
  have r: "replicate 2 (replicate 2 x) = [[x, x], [x, x]]" for x :: 'a
    by (simp add: eval_nat_numeral)
  from disc_viewport_render [of 2 2 1 3 "-0.1" "0.1" "-0.1" "0.1"]
    disc_viewport_render [of 2 2 1 1 "-0.1" "0.1" "-0.1" "0.1"] v
  show ?thesis by (simp add: r)
qed

text \<open>
  With \<open>max_iter = 1\<close> every count is 0 whatever the viewport, every logarithm is 0, and
  every cell is 0 divided by 0: the image is all black.
\<close>

lemma render_single_iteration:
  assumes "0 < width" "0 < height" "0 < tile_size"
  shows "divergence_buffer width height 1 x_min x_max y_min y_max tile_size =
           Inr (replicate (nat height) (replicate (nat width) 0)) \<and>
         render_mandelbrot_tiled width height 1 x_min x_max y_min y_max tile_size =
           Inr (replicate (nat height) (replicate (nat width) 0))"
proof -
  let ?z = "replicate (nat height) (replicate (nat width) (0 :: int32))"
  have "divergence_buffer width height 1 x_min x_max y_min y_max tile_size =
      Inr (map (\<lambda>y. map (\<lambda>x. 0) [0..<nat width]) [0..<nat height])"
    using divergence_buffer_returns [OF assms, of 1 x_min x_max y_min y_max]
    by (simp add: pixel_count_def escape_count_one)
  then have b: "divergence_buffer width height 1 x_min x_max y_min y_max tile_size = Inr ?z"
    by (simp add: map_replicate_const)
  have h: "0 < nat height" "0 < nat width" using assms(1,2) by simp_all
  from post_process_all_equal [OF h, of 1] have "post_process ?z = Inr (replicate (nat height) (replicate (nat width) 0))"
    by simp
  with b show ?thesis by (simp add: render_mandelbrot_tiled_def)
qed

text \<open>
  The viewport \<open>x \<in> [-0.6, -0.4]\<close>, \<open>y \<in> [-0.1, 0.1]\<close> again, as a raster of 2 by 2
  pixels with \<open>max_iter = 5\<close>: the buffer is uniformly 4 and the image uniformly 255.
\<close>

lemma cardioid_example_grid:
  "divergence_buffer 2 2 5 (-0.6) (-0.4) (-0.1) 0.1 2 = Inr [[4, 4], [4, 4]]"
proof -
  have g: "tile_grid 2 2 2 = [(0, 0)]" by (simp add: tile_grid_def py_range_def upto.simps)
  have t: "process_tile 2 2 5 (- (3 / 5)) (- (1 / 10)) (1 / 10) (1 / 10) 2 [[0, 0], [0, 0]] (0, 0) =
      Inr [[4, 4], [4, 4]]"
    by (simp add: eval_defs upto.simps)
  show ?thesis by (simp add: divergence_buffer_def g t Let_def eval_nat_numeral)
qed

lemma cardioid_example_grid_render:
  "render_mandelbrot_tiled 2 2 5 (-0.6) (-0.4) (-0.1) 0.1 2 = Inr [[255, 255], [255, 255]]"
proof -
  have "post_process (replicate 2 (replicate 2 (word_of_int (5 - 1)))) =
      Inr (replicate 2 (replicate 2 (if (5 :: int) = 1 then 0 else 255)))"
    by (rule post_process_all_equal) simp_all
  then have "post_process [[4, 4], [4, 4]] = Inr [[255, 255], [255, 255]]"
    by (simp add: eval_nat_numeral)
  then show ?thesis
    by (simp only: render_mandelbrot_tiled_def cardioid_example_grid sum.case)
qed

section \<open>What the render refuses\<close>

lemma render_error:
  "divergence_buffer width height max_iter x_min x_max y_min y_max tile_size = Inl e \<Longrightarrow>
   render_mandelbrot_tiled width height max_iter x_min x_max y_min y_max tile_size = Inl e"
  by (simp add: render_mandelbrot_tiled_def)

lemma divergence_buffer_zero_size:
  "width = 0 \<or> height = 0 \<Longrightarrow>
   divergence_buffer width height max_iter x_min x_max y_min y_max tile_size = Inl ZeroDivisionError"
  by (auto simp: divergence_buffer_def Let_def)

lemma divergence_buffer_negative_size:
  "width \<noteq> 0 \<Longrightarrow> height \<noteq> 0 \<Longrightarrow> width < 0 \<or> height < 0 \<Longrightarrow>
   divergence_buffer width height max_iter x_min x_max y_min y_max tile_size = Inl ValueError"
  by (auto simp: divergence_buffer_def Let_def)

lemma divergence_buffer_zero_tile:
  "0 < width \<Longrightarrow> 0 < height \<Longrightarrow> tile_size = 0 \<Longrightarrow>
   divergence_buffer width height max_iter x_min x_max y_min y_max tile_size = Inl ZeroDivisionError"
  by (simp add: divergence_buffer_def Let_def)

lemma tile_count_negative:
  fixes w ts :: int
  assumes "ts < 0" "2 \<le> w"
  shows "(w + ts - 1) div ts \<le> 0"
proof (cases "0 \<le> w + ts - 1")
  case True
  then show ?thesis using assms(1) by (simp add: div_nonneg_neg_le0)
next
  case False
  then have "w + ts - 1 \<le> 0" "ts < w + ts - 1" using assms(2) by simp_all
  then have "(w + ts - 1) div ts = 0" by (rule div_neg_neg_trivial)
  then show ?thesis by simp
qed

lemma py_range_empty: "n \<le> 0 \<Longrightarrow> py_range n = []"
  by (simp add: py_range_def)

lemma product_Nil_right: "List.product xs [] = []"
  by (induction xs) simp_all

lemma tile_grid_negative:
  assumes "tile_size < 0" "2 \<le> width \<or> 2 \<le> height"
  shows "tile_grid width height tile_size = []"
  using assms tile_count_negative [of tile_size width] tile_count_negative [of tile_size height]
  by (auto simp: tile_grid_def py_range_empty product_Nil_right)

lemma tile_grid_negative_one:
  assumes "tile_size < 0"
  shows "tile_grid 1 1 tile_size = [(0, 0)]"
  using assms by (simp add: tile_grid_def py_range_def upto.simps)

lemma process_tile_negative_one:
  assumes "tile_size < 0"
  shows "process_tile 1 1 max_iter x_min y_min x_scale y_scale tile_size [[0]] (0, 0) = Inr [[0]]"
  using assms by (simp add: eval_defs)

lemma divergence_buffer_negative_tile:
  assumes "0 < width" "0 < height" "tile_size < 0"
  shows "divergence_buffer width height max_iter x_min x_max y_min y_max tile_size =
         Inr (replicate (nat height) (replicate (nat width) 0))"
proof (cases "2 \<le> width \<or> 2 \<le> height")
  case True
  from tile_grid_negative [OF assms(3) this] assms show ?thesis
    by (simp add: divergence_buffer_def)
next
  case False
  with assms(1,2) have "width = 1" "height = 1" by simp_all
  then show ?thesis using assms(3)
    by (simp add: divergence_buffer_def tile_grid_negative_one process_tile_negative_one)
qed

lemma inverted_example_buffer: "divergence_buffer 1 1 2 1 0 0 0 1 = Inr [[1]]"
proof -
  have g: "tile_grid 1 1 1 = [(0, 0)]" by (simp add: tile_grid_def py_range_def upto.simps)
  have t: "process_tile 1 1 2 1 0 (- 1) 0 1 [[0]] (0, 0) = Inr [[1]]"
    by (simp add: eval_defs)
  show ?thesis by (simp add: divergence_buffer_def g t Let_def)
qed

text \<open>
  Claim C4 says that every invalid input is rejected before any computation. The function
  has no check of its own: with \<open>x_min = 1 \<ge> x_max = 0\<close> and \<open>y_min = 0 \<ge> y_max = 0\<close> the
  render runs and returns an image.
\<close>

theorem inverted_viewport_counterexample:
  "(1 :: real) \<ge> 0 \<and> (0 :: real) \<ge> 0 \<and>
   divergence_buffer 1 1 2 1 0 0 0 1 = Inr [[1]] \<and>
   render_mandelbrot_tiled 1 1 2 1 0 0 0 1 = Inr [[255]]"
  by (simp add: render_mandelbrot_tiled_def inverted_example_buffer post_process_one)

text \<open>
  Claim C4, amended. The render stops before the tile loop exactly through the
  exceptions of its own arithmetic: \<^verbatim>\<open>ZeroDivisionError\<close> for \<open>width = 0\<close> or
  \<open>height = 0\<close> (the scales), \<^verbatim>\<open>ValueError\<close> for a negative \<open>width\<close> or \<open>height\<close> (the
  allocation of \<^verbatim>\<open>result\<close>), \<^verbatim>\<open>ZeroDivisionError\<close> for \<open>tile_size = 0\<close> (the tile grid).
  Nothing else is rejected: for a positive raster and tile size the Divergence Buffer is
  computed for every viewport, also an inverted or empty one, and for every \<open>max_iter\<close>
  whose counts fit a cell, also \<open>max_iter \<le> 0\<close>; for a negative tile size no pixel is
  evaluated and the buffer stays all zero.
\<close>

theorem render_input_checks:
  "(width = 0 \<or> height = 0 \<longrightarrow>
      render_mandelbrot_tiled width height max_iter x_min x_max y_min y_max tile_size =
        Inl ZeroDivisionError) \<and>
   (width \<noteq> 0 \<and> height \<noteq> 0 \<and> (width < 0 \<or> height < 0) \<longrightarrow>
      render_mandelbrot_tiled width height max_iter x_min x_max y_min y_max tile_size =
        Inl ValueError) \<and>
   (0 < width \<and> 0 < height \<and> tile_size = 0 \<longrightarrow>
      render_mandelbrot_tiled width height max_iter x_min x_max y_min y_max tile_size =
        Inl ZeroDivisionError) \<and>
   (0 < width \<and> 0 < height \<and> 0 < tile_size \<and> - (2 ^ 31) < max_iter \<and> max_iter \<le> 2 ^ 31 \<longrightarrow>
      (\<exists>result. divergence_buffer width height max_iter x_min x_max y_min y_max tile_size =
          Inr result \<and> rect (nat height) (nat width) result)) \<and>
   (0 < width \<and> 0 < height \<and> tile_size < 0 \<longrightarrow>
      divergence_buffer width height max_iter x_min x_max y_min y_max tile_size =
        Inr (replicate (nat height) (replicate (nat width) 0)))"
proof (intro conjI impI)
  assume "width = 0 \<or> height = 0"
  then show "render_mandelbrot_tiled width height max_iter x_min x_max y_min y_max tile_size =
      Inl ZeroDivisionError"
    by (intro render_error divergence_buffer_zero_size)
next
  assume "width \<noteq> 0 \<and> height \<noteq> 0 \<and> (width < 0 \<or> height < 0)"
  then show "render_mandelbrot_tiled width height max_iter x_min x_max y_min y_max tile_size =
      Inl ValueError"
    by (intro render_error divergence_buffer_negative_size) simp_all
next
  assume "0 < width \<and> 0 < height \<and> tile_size = 0"
  then show "render_mandelbrot_tiled width height max_iter x_min x_max y_min y_max tile_size =
      Inl ZeroDivisionError"
    by (intro render_error divergence_buffer_zero_tile) simp_all
next
  assume a: "0 < width \<and> 0 < height \<and> 0 < tile_size \<and> - (2 ^ 31) < max_iter \<and> max_iter \<le> 2 ^ 31"
  then have "divergence_buffer width height max_iter x_min x_max y_min y_max tile_size =
     Inr (map (\<lambda>y. map (\<lambda>x. word_of_int
            (pixel_count max_iter x_min y_min ((x_max - x_min) / real_of_int width)
               ((y_max - y_min) / real_of_int height) (int x) (int y)))
          [0..<nat width]) [0..<nat height])"
    by (intro divergence_buffer_returns) simp_all
  then show "\<exists>result. divergence_buffer width height max_iter x_min x_max y_min y_max tile_size =
          Inr result \<and> rect (nat height) (nat width) result"
    by (simp add: rect_map)
next
  assume "0 < width \<and> 0 < height \<and> tile_size < 0"
  then show "divergence_buffer width height max_iter x_min x_max y_min y_max tile_size =
        Inr (replicate (nat height) (replicate (nat width) 0))"
    by (intro divergence_buffer_negative_tile) simp_all
qed

theorem render_input_checks_witness:
  "render_mandelbrot_tiled 0 1 2 0 1 0 1 1 = Inl ZeroDivisionError \<and>
   render_mandelbrot_tiled (- 1) 1 2 0 1 0 1 1 = Inl ValueError \<and>
   render_mandelbrot_tiled 1 1 2 0 1 0 1 0 = Inl ZeroDivisionError \<and>
   (\<exists>result. divergence_buffer 1 1 0 1 0 0 0 1 = Inr result \<and> rect (nat 1) (nat 1) result) \<and>
   divergence_buffer 1 1 2 0 1 0 1 (- 1) = Inr (replicate (nat 1) (replicate (nat 1) 0))"
  using render_input_checks [of 0 1 2 0 1 0 1 1]
    render_input_checks [of "- 1" 1 2 0 1 0 1 1]
    render_input_checks [of 1 1 2 0 1 0 1 0]
    render_input_checks [of 1 1 0 1 0 0 0 1]
    render_input_checks [of 1 1 2 0 1 0 1 "- 1"]
  by simp

end
